theory Spec2Isabelle
  imports Main "HOL-Library.Word"
begin

section \<open>Digests (package hash)\<close>

text \<open>
  The Go types \<^verbatim>\<open>digest64\<close> .. \<^verbatim>\<open>digest512\<close> are fixed-width byte arrays.
  A digest is modelled as the list of its bytes; the width is the length of the list.
\<close>

type_synonym byte = "8 word"
type_synonym digest = "byte list"

text \<open>\<^verbatim>\<open>IsZero\<close>: \<^verbatim>\<open>d == [len(d)]byte{}\<close>.\<close>

definition IsZero :: "digest \<Rightarrow> bool" where
  "IsZero d = (d = replicate (length d) 0)"

text \<open>The zero value of a digest type of the given width in bytes.\<close>

definition zero_digest :: "nat \<Rightarrow> digest" where
  "zero_digest n = replicate n 0"

text \<open>\<^verbatim>\<open>hex.EncodeToString\<close>: two lowercase hex digits per byte.\<close>

definition hexdigit :: "nat \<Rightarrow> char" where
  "hexdigit n = (''0123456789abcdef'' ! n)"

definition hex_byte :: "byte \<Rightarrow> string" where
  "hex_byte b = [hexdigit (unat b div 16), hexdigit (unat b mod 16)]"

definition EncodeToString :: "byte list \<Rightarrow> string" where
  "EncodeToString bs = concat (map hex_byte bs)"

text \<open>\<^verbatim>\<open>Digest.String()\<close>, \<^verbatim>\<open>Digest.Bytes()\<close> and \<^verbatim>\<open>Digest.Size()\<close>.\<close>

definition Digest_String :: "digest \<Rightarrow> string" where
  "Digest_String d = EncodeToString d"

definition Digest_Bytes :: "digest \<Rightarrow> byte list" where
  "Digest_Bytes d = d"

definition Digest_Size :: "digest \<Rightarrow> nat" where
  "Digest_Size d = length d"

section \<open>Cache ids and fingerprints (package record)\<close>

text \<open>\<^verbatim>\<open>embeddedCacheID\<close>: the id a store gave the object, and whether it has one.\<close>

record embeddedCacheID =
  cid :: nat
  hasID :: bool

definition no_cache_id :: embeddedCacheID where
  "no_cache_id = \<lparr>cid = 0, hasID = False\<rparr>"

definition IsCached :: "embeddedCacheID \<Rightarrow> bool" where
  "IsCached c = hasID c"

definition CacheID :: "embeddedCacheID \<Rightarrow> nat" where
  "CacheID c = cid c"

definition SetCacheID :: "embeddedCacheID \<Rightarrow> nat \<Rightarrow> embeddedCacheID" where
  "SetCacheID c i = c\<lparr>hasID := True, cid := i\<rparr>"

record Fingerprint =
  GitSHA :: digest
  MD5 :: digest
  SHA1 :: digest
  SHA256 :: digest
  SHA384 :: digest
  SHA512 :: digest
  Hwy64 :: digest
  Hwy128 :: digest
  Hwy256 :: digest
  Size :: int
  fp_cache :: embeddedCacheID

text \<open>\<^verbatim>\<open>new(record.Fingerprint)\<close>: every field at its zero value.\<close>

definition new_Fingerprint :: Fingerprint where
  "new_Fingerprint = \<lparr>GitSHA = zero_digest 20, MD5 = zero_digest 16, SHA1 = zero_digest 20,
     SHA256 = zero_digest 32, SHA384 = zero_digest 48, SHA512 = zero_digest 64,
     Hwy64 = zero_digest 8, Hwy128 = zero_digest 16, Hwy256 = zero_digest 32,
     Size = 0, fp_cache = no_cache_id\<rparr>"

text \<open>
  \<^verbatim>\<open>Fingerprint.GetDigest\<close>: the switch over the algorithm name; \<open>None\<close> is the
  nil interface of the default branch.
\<close>

definition GetDigest :: "Fingerprint \<Rightarrow> string \<Rightarrow> digest option" where
  "GetDigest f alg =
     (if alg = ''git'' \<or> alg = ''gitsha'' then Some (GitSHA f)
      else if alg = ''sha1'' then Some (SHA1 f)
      else if alg = ''sha256'' then Some (SHA256 f)
      else if alg = ''sha384'' then Some (SHA384 f)
      else if alg = ''sha512'' then Some (SHA512 f)
      else if alg = ''hwy64bp'' then Some (Hwy64 f)
      else if alg = ''hwy128bp'' then Some (Hwy128 f)
      else if alg = ''hwy256bp'' then Some (Hwy256 f)
      else None)"

text \<open>
  \<^verbatim>\<open>Fingerprint.Is\<close> for a \<^verbatim>\<open>*Fingerprint\<close> argument. The first test of the
  source compares the two pointers; \<open>same\<close> is its outcome.
\<close>

definition Is_values :: "Fingerprint \<Rightarrow> Fingerprint \<Rightarrow> bool" where
  "Is_values f other =
     (if Size f \<noteq> 0 \<and> Size other \<noteq> 0 \<and> Size f \<noteq> Size other then False
      else if \<not> IsZero (GitSHA f) \<and> GitSHA f = GitSHA other then True
      else if \<not> IsZero (MD5 f) \<and> MD5 f = MD5 other then True
      else if \<not> IsZero (Hwy64 f) \<and> Hwy64 f = Hwy64 other then True
      else if \<not> IsZero (Hwy128 f) \<and> Hwy128 f = Hwy128 other then True
      else if \<not> IsZero (Hwy256 f) \<and> Hwy256 f = Hwy256 other then True
      else if \<not> IsZero (SHA1 f) \<and> SHA1 f = SHA1 other then True
      else if \<not> IsZero (SHA256 f) \<and> SHA256 f = SHA256 other then True
      else if \<not> IsZero (SHA384 f) \<and> SHA384 f = SHA384 other then True
      else if \<not> IsZero (SHA512 f) \<and> SHA512 f = SHA512 other then True
      else False)"

definition Fingerprint_Is :: "bool \<Rightarrow> Fingerprint \<Rightarrow> Fingerprint \<Rightarrow> bool" where
  "Fingerprint_Is same f other = (if same then True else Is_values f other)"

text \<open>
  \<^verbatim>\<open>Fingerprint.UpdateWith\<close>: the receiver after the call, and the number of
  fields copied.
\<close>

definition UpdateWith :: "Fingerprint \<Rightarrow> Fingerprint \<Rightarrow> Fingerprint \<times> nat" where
  "UpdateWith f other =
     (let (f, n) = (if Size f = 0 \<and> Size other \<noteq> 0
                    then (f\<lparr>Size := Size other\<rparr>, 1) else (f, 0));
          (f, n) = (if IsZero (GitSHA f) \<and> GitSHA f \<noteq> GitSHA other
                    then (f\<lparr>GitSHA := GitSHA other\<rparr>, n + 1) else (f, n));
          (f, n) = (if IsZero (MD5 f) \<and> MD5 f \<noteq> MD5 other
                    then (f\<lparr>MD5 := MD5 other\<rparr>, n + 1) else (f, n));
          (f, n) = (if IsZero (SHA1 f) \<and> SHA1 f \<noteq> SHA1 other
                    then (f\<lparr>SHA1 := SHA1 other\<rparr>, n + 1) else (f, n));
          (f, n) = (if IsZero (SHA256 f) \<and> SHA256 f \<noteq> SHA256 other
                    then (f\<lparr>SHA256 := SHA256 other\<rparr>, n + 1) else (f, n));
          (f, n) = (if IsZero (SHA384 f) \<and> SHA384 f \<noteq> SHA384 other
                    then (f\<lparr>SHA384 := SHA384 other\<rparr>, n + 1) else (f, n));
          (f, n) = (if IsZero (SHA512 f) \<and> SHA512 f \<noteq> SHA512 other
                    then (f\<lparr>SHA512 := SHA512 other\<rparr>, n + 1) else (f, n));
          (f, n) = (if IsZero (Hwy64 f) \<and> Hwy64 f \<noteq> Hwy64 other
                    then (f\<lparr>Hwy64 := Hwy64 other\<rparr>, n + 1) else (f, n));
          (f, n) = (if IsZero (Hwy128 f) \<and> Hwy128 f \<noteq> Hwy128 other
                    then (f\<lparr>Hwy128 := Hwy128 other\<rparr>, n + 1) else (f, n));
          (f, n) = (if IsZero (Hwy256 f) \<and> Hwy256 f \<noteq> Hwy256 other
                    then (f\<lparr>Hwy256 := Hwy256 other\<rparr>, n + 1) else (f, n))
      in (f, n))"

section \<open>Errors\<close>

text \<open>
  An \<^verbatim>\<open>error\<close> value returned by a function (\<^verbatim>\<open>errors.New\<close>) and a
  \<^verbatim>\<open>panic\<close>, which ends the program.
\<close>

datatype error = Error string | Panic string

section \<open>Digest matchers (package hash) and fingerprint matchers (package scanner)\<close>

text \<open>\<^verbatim>\<open>bytes.HasPrefix\<close> and \<^verbatim>\<open>strings.HasPrefix\<close>.\<close>

definition HasPrefix :: "'a list \<Rightarrow> 'a list \<Rightarrow> bool" where
  "HasPrefix s p = (length p \<le> length s \<and> take (length p) s = p)"

text \<open>\<^verbatim>\<open>hex.DecodeString\<close>: \<open>None\<close> is the error return (a byte that is no hex
  digit, or an odd length).\<close>

definition fromHexChar :: "char \<Rightarrow> nat option" where
  "fromHexChar c =
     (let n = (of_char c :: nat) in
      if of_char CHR ''0'' \<le> n \<and> n \<le> of_char CHR ''9'' then Some (n - of_char CHR ''0'')
      else if of_char CHR ''a'' \<le> n \<and> n \<le> of_char CHR ''f'' then Some (n - of_char CHR ''a'' + 10)
      else if of_char CHR ''A'' \<le> n \<and> n \<le> of_char CHR ''F'' then Some (n - of_char CHR ''A'' + 10)
      else None)"

fun DecodeString :: "string \<Rightarrow> byte list option" where
  "DecodeString [] = Some []"
| "DecodeString [c] = None"
| "DecodeString (a # b # cs) =
     (case (fromHexChar a, fromHexChar b) of
        (Some x, Some y) \<Rightarrow>
          (case DecodeString cs of None \<Rightarrow> None | Some bs \<Rightarrow> Some (of_nat (x * 16 + y) # bs))
      | _ \<Rightarrow> None)"

record DigestMatcher =
  P :: string
  T :: string
  B :: "byte list option"

text \<open>
  \<^verbatim>\<open>matcherFormat\<close> is the regular expression
  \<^verbatim>\<open>^(\*|git|gitsha|sha1|sha256|sha384|sha512):([0-9a-fA-F]+)$\<close>.
  \<open>FindStringSubmatch\<close> returns its two groups, trying the alternatives of the first
  group from left to right as the regexp engine does; \<open>None\<close> is the nil slice of a
  string that does not match.
\<close>

definition matcher_algorithms :: "string list" where
  "matcher_algorithms = [''*'', ''git'', ''gitsha'', ''sha1'', ''sha256'', ''sha384'', ''sha512'']"

definition is_hex_char :: "char \<Rightarrow> bool" where
  "is_hex_char c = (c \<in> set ''0123456789abcdefABCDEF'')"

definition hex_digits :: "string \<Rightarrow> bool" where
  "hex_digits h = (h \<noteq> [] \<and> list_all is_hex_char h)"

fun match_alternatives :: "string list \<Rightarrow> string \<Rightarrow> (string \<times> string) option" where
  "match_alternatives [] pat = None"
| "match_alternatives (a # as) pat =
     (if take (length a + 1) pat = a @ '':'' \<and> hex_digits (drop (length a + 1) pat)
      then Some (a, drop (length a + 1) pat)
      else match_alternatives as pat)"

definition FindStringSubmatch :: "string \<Rightarrow> (string \<times> string) option" where
  "FindStringSubmatch pat = match_alternatives matcher_algorithms pat"

definition NewDigestMatcher :: "string \<Rightarrow> error + DigestMatcher" where
  "NewDigestMatcher pat =
     (case FindStringSubmatch pat of
        None \<Rightarrow> Inl (Error ''Invalid pattern'')
      | Some (t, p) \<Rightarrow> Inr \<lparr>P = p, T = t, B = DecodeString p\<rparr>)"

text \<open>\<^verbatim>\<open>DigestMatcher.Match\<close>; the length of a nil slice is 0.\<close>

definition DigestMatcher_Match :: "DigestMatcher \<Rightarrow> digest \<Rightarrow> bool" where
  "DigestMatcher_Match matcher h =
     (if length (case B matcher of None \<Rightarrow> [] | Some b \<Rightarrow> b) > Digest_Size h then False
      else case B matcher of
             Some b \<Rightarrow> HasPrefix (Digest_Bytes h) b
           | None \<Rightarrow> HasPrefix (Digest_String h) (P matcher))"

text \<open>\<^verbatim>\<open>FingerprintMatcher.Match\<close> (the matcher embeds a \<^verbatim>\<open>DigestMatcher\<close>).\<close>

definition FingerprintMatcher_Match :: "DigestMatcher \<Rightarrow> Fingerprint \<Rightarrow> bool" where
  "FingerprintMatcher_Match matcher f =
     (if T matcher = ''*'' \<or> T matcher = [] then False
      else case GetDigest f (T matcher) of
             None \<Rightarrow> False
           | Some d \<Rightarrow> DigestMatcher_Match matcher d)"

section \<open>The \<^verbatim>\<open>hash all\<close> command (cmd/binprint)\<close>

definition knownAlgorithms :: "string list" where
  "knownAlgorithms = [''md5'', ''sha1'', ''sha256'', ''sha384'', ''sha512'', ''git'',
     ''hwy64'', ''hwy128'', ''hwy256'']"

text \<open>
  \<^verbatim>\<open>fmt\<close>'s verb \<^verbatim>\<open>%s\<close> on a \<^verbatim>\<open>hash.Digest\<close>: the digest's
  \<^verbatim>\<open>String()\<close>, and \<^verbatim>\<open>%!s(<nil>)\<close> for the nil interface.
\<close>

definition fmt_s :: "digest option \<Rightarrow> string" where
  "fmt_s d = (case d of None \<Rightarrow> ''%!s(<nil>)'' | Some x \<Rightarrow> Digest_String x)"

text \<open>One \<^verbatim>\<open>fmt.Printf("%s:%s  %s\n", alg, result.Fingerprint.GetDigest(alg), path)\<close>;
  the line is given without its final newline.\<close>

definition hashAll_line :: "Fingerprint \<Rightarrow> string \<Rightarrow> string \<Rightarrow> string" where
  "hashAll_line fp path alg = alg @ '':'' @ fmt_s (GetDigest fp alg) @ ''  '' @ path"

text \<open>
  The \<^verbatim>\<open>Run\<close> function of \<^verbatim>\<open>hashAllCmd\<close>: the lines printed for the
  arguments. \<open>identify path\<close> is the fingerprint of \<^verbatim>\<open>scanner.IdentifyFile(path)\<close>,
  \<open>None\<close> when the result or its fingerprint is nil.
\<close>

definition hashAllCmd :: "(string \<Rightarrow> Fingerprint option) \<Rightarrow> string list \<Rightarrow> string list" where
  "hashAllCmd identify args =
     concat (map (\<lambda>path. case identify path of
                            None \<Rightarrow> []
                          | Some fp \<Rightarrow> map (hashAll_line fp path) knownAlgorithms) args)"

section \<open>Asynchronous hashers (package hash) and \<^verbatim>\<open>CalculateSums\<close>\<close>

text \<open>
  The hash primitives (\<^verbatim>\<open>crypto/md5\<close>, \<^verbatim>\<open>crypto/sha1\<close>, ..., HighwayHash with
  the fixed key) are library code: each is a parameter that maps the bytes written to
  the digest.
\<close>

record hash_functions =
  md5_of :: "byte list \<Rightarrow> digest"
  sha1_of :: "byte list \<Rightarrow> digest"
  sha256_of :: "byte list \<Rightarrow> digest"
  sha384_of :: "byte list \<Rightarrow> digest"
  sha512_of :: "byte list \<Rightarrow> digest"
  hwy64_of :: "byte list \<Rightarrow> digest"
  hwy128_of :: "byte list \<Rightarrow> digest"
  hwy256_of :: "byte list \<Rightarrow> digest"

text \<open>The dynamic type of a \<^verbatim>\<open>hash.Digest\<close> value, which the type switches read.\<close>

datatype hash_kind =
  GitKind | MD5Kind | SHA1Kind | SHA256Kind | SHA384Kind | SHA512Kind
  | Hwy64Kind | Hwy128Kind | Hwy256Kind

text \<open>
  A \<^verbatim>\<open>BasicHasher\<close> (and the \<^verbatim>\<open>GitShaHasher\<close> that embeds one): the bytes fed
  to the hash before the pipe is read (\<open>header\<close>), the bytes written to the pipe, and
  the declared size of a \<^verbatim>\<open>GitShaHasher\<close>.
\<close>

record AsyncHash =
  kind :: hash_kind
  gh_size :: int
  header :: "byte list"
  written :: "byte list"

text \<open>\<^verbatim>\<open>fmt\<close>'s verb \<^verbatim>\<open>%d\<close> on an \<^verbatim>\<open>int64\<close>.\<close>

function decimal :: "nat \<Rightarrow> string" where
  "decimal n = (if n < 10 then [char_of (48 + n)]
                else decimal (n div 10) @ [char_of (48 + n mod 10)])"
  by pat_completeness auto
termination
  by (relation "measure id") auto

definition fmt_d :: "int \<Rightarrow> string" where
  "fmt_d i = (if i < 0 then CHR ''-'' # decimal (nat (- i)) else decimal (nat i))"

definition NewGitShaHasher :: "string \<Rightarrow> int \<Rightarrow> AsyncHash" where
  "NewGitShaHasher oType size' =
     \<lparr>kind = GitKind, gh_size = size',
      header = map of_char (oType @ '' '' @ fmt_d size') @ [0], written = []\<rparr>"

definition newBasicHasher :: "hash_kind \<Rightarrow> AsyncHash" where
  "newBasicHasher k = \<lparr>kind = k, gh_size = 0, header = [], written = []\<rparr>"

definition Write :: "AsyncHash \<Rightarrow> byte list \<Rightarrow> AsyncHash" where
  "Write h bs = h\<lparr>written := written h @ bs\<rparr>"

definition bytesHashed :: "AsyncHash \<Rightarrow> int" where
  "bytesHashed h = int (length (written h))"

text \<open>\<^verbatim>\<open>BasicHasher.result\<close> once the pipe is closed.\<close>

definition hasher_result :: "hash_functions \<Rightarrow> AsyncHash \<Rightarrow> digest" where
  "hasher_result H h =
     (case kind h of
        GitKind \<Rightarrow> sha1_of H (header h @ written h)
      | MD5Kind \<Rightarrow> md5_of H (header h @ written h)
      | SHA1Kind \<Rightarrow> sha1_of H (header h @ written h)
      | SHA256Kind \<Rightarrow> sha256_of H (header h @ written h)
      | SHA384Kind \<Rightarrow> sha384_of H (header h @ written h)
      | SHA512Kind \<Rightarrow> sha512_of H (header h @ written h)
      | Hwy64Kind \<Rightarrow> hwy64_of H (header h @ written h)
      | Hwy128Kind \<Rightarrow> hwy128_of H (header h @ written h)
      | Hwy256Kind \<Rightarrow> hwy256_of H (header h @ written h))"

text \<open>
  What the channel of \<^verbatim>\<open>Done()\<close> delivers after \<^verbatim>\<open>Close()\<close>: the digest with
  its dynamic type, or \<open>None\<close> for the nil that \<^verbatim>\<open>GitShaHasher.Done\<close> sends when
  \<^verbatim>\<open>bytesHashed != size\<close>.
\<close>

definition GitShaHasher_Done :: "hash_functions \<Rightarrow> AsyncHash \<Rightarrow> (hash_kind \<times> digest) option" where
  "GitShaHasher_Done H gh =
     (if bytesHashed gh \<noteq> gh_size gh then None else Some (GitKind, hasher_result H gh))"

definition Done :: "hash_functions \<Rightarrow> AsyncHash \<Rightarrow> (hash_kind \<times> digest) option" where
  "Done H h = (if kind h = GitKind then GitShaHasher_Done H h
               else Some (kind h, hasher_result H h))"

text \<open>
  An \<^verbatim>\<open>io.Reader\<close> as \<^verbatim>\<open>io.Copy\<close> sees it: the bytes it delivers, and the error
  other than EOF that ends it, if any.
\<close>

record InputStream =
  stream_bytes :: "byte list"
  stream_error :: "error option"

text \<open>The type switch of \<^verbatim>\<open>CalculateSums\<close> that stores one delivered digest.\<close>

definition store_digest :: "Fingerprint \<Rightarrow> (hash_kind \<times> digest) option \<Rightarrow> Fingerprint" where
  "store_digest f d =
     (case d of
        None \<Rightarrow> f
      | Some (GitKind, x) \<Rightarrow> f\<lparr>GitSHA := x\<rparr>
      | Some (MD5Kind, x) \<Rightarrow> f\<lparr>MD5 := x\<rparr>
      | Some (SHA1Kind, x) \<Rightarrow> f\<lparr>SHA1 := x\<rparr>
      | Some (SHA256Kind, x) \<Rightarrow> f\<lparr>SHA256 := x\<rparr>
      | Some (SHA384Kind, x) \<Rightarrow> f\<lparr>SHA384 := x\<rparr>
      | Some (SHA512Kind, x) \<Rightarrow> f\<lparr>SHA512 := x\<rparr>
      | Some (Hwy64Kind, x) \<Rightarrow> f\<lparr>Hwy64 := x\<rparr>
      | Some (Hwy128Kind, x) \<Rightarrow> f\<lparr>Hwy128 := x\<rparr>
      | Some (Hwy256Kind, x) \<Rightarrow> f\<lparr>Hwy256 := x\<rparr>)"

text \<open>The hashers \<^verbatim>\<open>CalculateSums\<close> creates: one per digest that is still zero.\<close>

definition missing_hashers :: "Fingerprint \<Rightarrow> AsyncHash list" where
  "missing_hashers f =
     (if IsZero (GitSHA f) \<and> Size f \<ge> 0 then [NewGitShaHasher ''blob'' (Size f)] else [])
     @ (if IsZero (MD5 f) then [newBasicHasher MD5Kind] else [])
     @ (if IsZero (SHA1 f) then [newBasicHasher SHA1Kind] else [])
     @ (if IsZero (SHA256 f) then [newBasicHasher SHA256Kind] else [])
     @ (if IsZero (SHA384 f) then [newBasicHasher SHA384Kind] else [])
     @ (if IsZero (SHA512 f) then [newBasicHasher SHA512Kind] else [])
     @ (if IsZero (Hwy64 f) then [newBasicHasher Hwy64Kind] else [])
     @ (if IsZero (Hwy128 f) then [newBasicHasher Hwy128Kind] else [])
     @ (if IsZero (Hwy256 f) then [newBasicHasher Hwy256Kind] else [])"

text \<open>
  \<^verbatim>\<open>Fingerprint.CalculateSums\<close>: the fingerprint after the call and the error
  returned. \<^verbatim>\<open>io.Copy\<close> through the \<^verbatim>\<open>MultiWriter\<close> writes every byte read to
  every hasher; when it ends with an error every digest is dropped.
\<close>

definition CalculateSums ::
  "hash_functions \<Rightarrow> Fingerprint \<Rightarrow> InputStream \<Rightarrow> int \<Rightarrow> Fingerprint \<times> error option" where
  "CalculateSums H f0 data size' =
     (let f = (if Size f0 = 0 \<and> size' \<noteq> 0 then f0\<lparr>Size := size'\<rparr> else f0);
          hashers = missing_hashers f
      in if hashers = [] then (f, None)
         else let hashers = map (\<lambda>h. Write h (stream_bytes data)) hashers
              in case stream_error data of
                   Some err \<Rightarrow> (f, Some err)
                 | None \<Rightarrow> (foldl store_digest f (map (Done H) hashers), None))"

section \<open>Files, archives and repositories (package record)\<close>

text \<open>
  Objects live in a heap and are referred to by address; a pointer is an address or nil
  (\<open>None\<close>). Two pointers are the same pointer when the addresses are equal.
\<close>

type_synonym addr = nat
type_synonym ptr = "addr option"

record File =
  Path :: string
  File_Fingerprint :: ptr
  file_cache :: embeddedCacheID

record ArchiveFile =
  Archive_File :: ptr
  Entries :: "ptr list"
  archive_cache :: embeddedCacheID

record GitRepoSource =
  Commit :: digest
  Tag :: string
  Branch :: string
  URL :: string
  Repo_Files :: "ptr list"
  repo_cache :: embeddedCacheID

text \<open>\<^verbatim>\<open>GitRepoSource.URN\<close>.\<close>

definition URN :: "GitRepoSource \<Rightarrow> string" where
  "URN r = ''urn:x-fp:git:'' @ Digest_String (Commit r) @ '':'' @ Branch r @ '':'' @ Tag r"

text \<open>
  The heap: one object per address and type, and for each type the first address not
  yet handed out by an allocation.
\<close>

record heap =
  fingerprint_at :: "addr \<Rightarrow> Fingerprint"
  file_at :: "addr \<Rightarrow> File"
  archive_at :: "addr \<Rightarrow> ArchiveFile"
  repo_at :: "addr \<Rightarrow> GitRepoSource"
  next_fingerprint :: addr
  next_file :: addr
  next_archive :: addr
  next_repo :: addr

definition alloc_fingerprint :: "heap \<Rightarrow> Fingerprint \<Rightarrow> addr \<times> heap" where
  "alloc_fingerprint h f =
     (next_fingerprint h,
      h\<lparr>fingerprint_at := (fingerprint_at h)(next_fingerprint h := f),
        next_fingerprint := next_fingerprint h + 1\<rparr>)"

definition alloc_file :: "heap \<Rightarrow> File \<Rightarrow> addr \<times> heap" where
  "alloc_file h f =
     (next_file h,
      h\<lparr>file_at := (file_at h)(next_file h := f), next_file := next_file h + 1\<rparr>)"

definition alloc_archive :: "heap \<Rightarrow> ArchiveFile \<Rightarrow> addr \<times> heap" where
  "alloc_archive h a =
     (next_archive h,
      h\<lparr>archive_at := (archive_at h)(next_archive h := a), next_archive := next_archive h + 1\<rparr>)"

definition alloc_repo :: "heap \<Rightarrow> GitRepoSource \<Rightarrow> addr \<times> heap" where
  "alloc_repo h r =
     (next_repo h,
      h\<lparr>repo_at := (repo_at h)(next_repo h := r), next_repo := next_repo h + 1\<rparr>)"

section \<open>The in-memory store (package store)\<close>

text \<open>
  The Bloom filter of the library: the bit positions its hash functions select for a
  key are fixed when the filter is created, \<^verbatim>\<open>Add\<close> sets them, \<^verbatim>\<open>Contains\<close>
  tests them.
\<close>

record Filter =
  filter_keys :: "digest \<Rightarrow> nat list"
  filter_bits :: "nat set"

definition NewOptimal :: "(digest \<Rightarrow> nat list) \<Rightarrow> Filter" where
  "NewOptimal keys = \<lparr>filter_keys = keys, filter_bits = {}\<rparr>"

definition Filter_Add :: "Filter \<Rightarrow> digest \<Rightarrow> Filter" where
  "Filter_Add f d = f\<lparr>filter_bits := filter_bits f \<union> set (filter_keys f d)\<rparr>"

definition Filter_Contains :: "Filter \<Rightarrow> digest \<Rightarrow> bool" where
  "Filter_Contains f d = list_all (\<lambda>b. b \<in> filter_bits f) (filter_keys f d)"

text \<open>
  The stat cache maps a \<^verbatim>\<open>CachedStatFingerprintKey\<close> (a string derived from size,
  inode and modification time) to a fingerprint pointer. It is kept as an association
  list with one pair per key; the eviction of the ARC cache beyond its capacity of
  1048576 entries is not modelled.
\<close>

type_synonym CachedStatFingerprintKey = string

fun stat_add :: "('k \<times> 'v) list \<Rightarrow> 'k \<Rightarrow> 'v \<Rightarrow> ('k \<times> 'v) list" where
  "stat_add [] k v = [(k, v)]"
| "stat_add ((k', v') # kvs) k v =
     (if k' = k then (k, v) # kvs else (k', v') # stat_add kvs k v)"

record fingerprintInMemoryCache =
  Fingerprints :: "addr list"
  gitSHAIndex :: "digest \<rightharpoonup> nat"
  gitSHAFilter :: Filter
  Files :: "addr list"
  GitRepoSources :: "addr list"
  ArchiveFiles :: "addr list"
  statCache :: "(CachedStatFingerprintKey \<times> addr) list"

type_synonym state = "heap \<times> fingerprintInMemoryCache"

definition newInMemoryCache :: "(digest \<Rightarrow> nat list) \<Rightarrow> fingerprintInMemoryCache" where
  "newInMemoryCache keys =
     \<lparr>Fingerprints = [], gitSHAIndex = Map.empty, gitSHAFilter = NewOptimal keys,
      Files = [], GitRepoSources = [], ArchiveFiles = [], statCache = []\<rparr>"

text \<open>Reading a slice at an index panics outside its bounds.\<close>

definition index :: "'a list \<Rightarrow> nat \<Rightarrow> error + 'a" where
  "index xs i = (if i < length xs then Inr (xs ! i) else Inl (Panic ''index out of range''))"

definition nil_dereference :: error where
  "nil_dereference = Panic ''invalid memory address or nil pointer dereference''"

definition GetFingerprintByGitSHA :: "fingerprintInMemoryCache \<Rightarrow> digest \<Rightarrow> error + ptr" where
  "GetFingerprintByGitSHA v gitSHA =
     (if \<not> Filter_Contains (gitSHAFilter v) gitSHA then Inr None
      else case gitSHAIndex v gitSHA of
             Some i \<Rightarrow> (case index (Fingerprints v) i of Inl e \<Rightarrow> Inl e | Inr a \<Rightarrow> Inr (Some a))
           | None \<Rightarrow> Inr None)"

definition GetStatFingerprint :: "state \<Rightarrow> CachedStatFingerprintKey \<Rightarrow> ptr" where
  "GetStatFingerprint s key = map_of (statCache (snd s)) key"

definition PutStatFingerprint :: "state \<Rightarrow> CachedStatFingerprintKey \<Rightarrow> addr \<Rightarrow> state" where
  "PutStatFingerprint s key fp =
     (fst s, (snd s)\<lparr>statCache := stat_add (statCache (snd s)) key fp\<rparr>)"

text \<open>
  \<^verbatim>\<open>PutFingerprint\<close>: the pointer returned and the state after the call. The loop
  over \<^verbatim>\<open>v.Fingerprints\<close> that stops at the first entry with \<^verbatim>\<open>efp.Is(fp)\<close> is
  \<open>find\<close>.
\<close>

definition PutFingerprint :: "state \<Rightarrow> ptr \<Rightarrow> error + (ptr \<times> state)" where
  "PutFingerprint s fp =
     (case fp of
        None \<Rightarrow> Inl nil_dereference
      | Some a \<Rightarrow>
         (let h = fst s; v = snd s in
          if IsCached (fp_cache (fingerprint_at h a)) then Inr (Some a, s)
          else case GetFingerprintByGitSHA v (GitSHA (fingerprint_at h a)) of
                 Inl e \<Rightarrow> Inl e
               | Inr byGitSHA \<Rightarrow>
                  (let existing =
                     (case byGitSHA of
                        Some e \<Rightarrow> Some e
                      | None \<Rightarrow> find (\<lambda>e. Fingerprint_Is (e = a) (fingerprint_at h e)
                                               (fingerprint_at h a)) (Fingerprints v))
                   in case existing of
                        Some e \<Rightarrow>
                          Inr (Some e,
                               (h\<lparr>fingerprint_at := (fingerprint_at h)
                                    (e := fst (UpdateWith (fingerprint_at h e) (fingerprint_at h a)))\<rparr>,
                                v))
                      | None \<Rightarrow>
                          (let i = length (Fingerprints v);
                               f = fingerprint_at h a
                           in Inr (Some a,
                                   (h\<lparr>fingerprint_at := (fingerprint_at h)
                                        (a := f\<lparr>fp_cache := SetCacheID (fp_cache f) i\<rparr>)\<rparr>,
                                    v\<lparr>Fingerprints := Fingerprints v @ [a],
                                      gitSHAIndex := (gitSHAIndex v)(GitSHA f \<mapsto> i),
                                      gitSHAFilter := Filter_Add (gitSHAFilter v) (GitSHA f)\<rparr>))))))"

text \<open>
  The loop of \<^verbatim>\<open>PutFile\<close> over \<^verbatim>\<open>v.Files\<close>: the first stored file with the same
  path whose fingerprint is the same pointer as \<open>fa\<close> or is equivalent to it.
\<close>

fun find_existing_file :: "heap \<Rightarrow> string \<Rightarrow> addr \<Rightarrow> addr list \<Rightarrow> error + ptr" where
  "find_existing_file h path fa [] = Inr None"
| "find_existing_file h path fa (e # es) =
     (if Path (file_at h e) = path
      then (if File_Fingerprint (file_at h e) = Some fa then Inr (Some e)
            else case File_Fingerprint (file_at h e) of
                   None \<Rightarrow> Inl nil_dereference
                 | Some efa \<Rightarrow>
                     if Fingerprint_Is (efa = fa) (fingerprint_at h efa) (fingerprint_at h fa)
                     then Inr (Some e)
                     else find_existing_file h path fa es)
      else find_existing_file h path fa es)"

definition PutFile :: "state \<Rightarrow> ptr \<Rightarrow> error + (ptr \<times> state)" where
  "PutFile s f =
     (case f of
        None \<Rightarrow> Inl (Panic ''Can't remember a nil file'')
      | Some a \<Rightarrow>
         (let h = fst s; v = snd s in
          case File_Fingerprint (file_at h a) of
            None \<Rightarrow> Inl (Panic ''Can't remember a file with a nil fingerprint'')
          | Some fa \<Rightarrow>
             if IsCached (file_cache (file_at h a)) then Inr (Some a, s)
             else case find_existing_file h (Path (file_at h a)) fa (Files v) of
                    Inl e \<Rightarrow> Inl e
                  | Inr (Some existing) \<Rightarrow> Inr (Some existing, s)
                  | Inr None \<Rightarrow>
                     (case PutFingerprint s (Some fa) of
                        Inl e \<Rightarrow> Inl e
                      | Inr (fp, s') \<Rightarrow>
                         (let h' = fst s'; v' = snd s';
                              i = length (Files v');
                              file = file_at h' a
                          in Inr (Some a,
                                  (h'\<lparr>file_at := (file_at h')
                                        (a := file\<lparr>File_Fingerprint := fp,
                                                  file_cache := SetCacheID (file_cache file) i\<rparr>)\<rparr>,
                                   v'\<lparr>Files := Files v' @ [a]\<rparr>))))))"

text \<open>The loops \<^verbatim>\<open>rememberedFiles[i] = v.PutFile(f)\<close>.\<close>

fun PutFiles :: "state \<Rightarrow> ptr list \<Rightarrow> error + (ptr list \<times> state)" where
  "PutFiles s [] = Inr ([], s)"
| "PutFiles s (f # fs) =
     (case PutFile s f of
        Inl e \<Rightarrow> Inl e
      | Inr (p, s') \<Rightarrow>
         (case PutFiles s' fs of
            Inl e \<Rightarrow> Inl e
          | Inr (ps, s'') \<Rightarrow> Inr (p # ps, s'')))"

definition PutGitSource :: "state \<Rightarrow> ptr \<Rightarrow> error + (ptr \<times> state)" where
  "PutGitSource s r =
     (case r of
        None \<Rightarrow> Inl nil_dereference
      | Some a \<Rightarrow>
         (let h = fst s; v = snd s in
          case find (\<lambda>e. URN (repo_at h e) = URN (repo_at h a)) (GitRepoSources v) of
            Some e \<Rightarrow> Inr (Some e, s)
          | None \<Rightarrow>
             (case PutFiles s (Repo_Files (repo_at h a)) of
                Inl e \<Rightarrow> Inl e
              | Inr (rememberedFiles, s') \<Rightarrow>
                 (let h' = fst s'; v' = snd s';
                      i = length (GitRepoSources v');
                      repo = repo_at h' a
                  in Inr (Some a,
                          (h'\<lparr>repo_at := (repo_at h')
                                (a := repo\<lparr>Repo_Files := rememberedFiles,
                                          repo_cache := SetCacheID (repo_cache repo) i\<rparr>)\<rparr>,
                           v'\<lparr>GitRepoSources := GitRepoSources v' @ [a]\<rparr>))))))"

definition PutArchiveFile :: "state \<Rightarrow> ptr \<Rightarrow> error + (ptr \<times> state)" where
  "PutArchiveFile s r =
     (case r of
        None \<Rightarrow> Inl nil_dereference
      | Some a \<Rightarrow>
         (case PutFile s (Archive_File (archive_at (fst s) a)) of
            Inl e \<Rightarrow> Inl e
          | Inr (file, s1) \<Rightarrow>
             (let h1 = fst s1; v1 = snd s1;
                  h2 = h1\<lparr>archive_at := (archive_at h1)
                            (a := (archive_at h1 a)\<lparr>Archive_File := file\<rparr>)\<rparr>
              in case find (\<lambda>e. Archive_File (archive_at h2 e) = file) (ArchiveFiles v1) of
                   Some e \<Rightarrow> Inr (Some e, (h2, v1))
                 | None \<Rightarrow>
                    (case PutFiles (h2, v1) (Entries (archive_at h2 a)) of
                       Inl e \<Rightarrow> Inl e
                     | Inr (rememberedFiles, s3) \<Rightarrow>
                        (let h3 = fst s3; v3 = snd s3;
                             i = length (ArchiveFiles v3);
                             archive = archive_at h3 a
                         in Inr (Some a,
                                 (h3\<lparr>archive_at := (archive_at h3)
                                       (a := archive\<lparr>Entries := rememberedFiles,
                                                    archive_cache := SetCacheID (archive_cache archive) i\<rparr>)\<rparr>,
                                  v3\<lparr>ArchiveFiles := ArchiveFiles v3 @ [a]\<rparr>)))))))"

text \<open>
  \<^verbatim>\<open>FindFilesWithFingerprint\<close>: \<open>None\<close> is the nil slice returned when the git-sha
  lookup finds nothing. \<^verbatim>\<open>FindArchiveFilesContainingFingerprint\<close>: one archive per
  matching file, archive and entry, in the order of the three nested loops.
\<close>

definition FindFilesWithFingerprint :: "state \<Rightarrow> ptr \<Rightarrow> error + addr list option" where
  "FindFilesWithFingerprint s fp =
     (case fp of
        None \<Rightarrow> Inl nil_dereference
      | Some a \<Rightarrow>
         (case GetFingerprintByGitSHA (snd s) (GitSHA (fingerprint_at (fst s) a)) of
            Inl e \<Rightarrow> Inl e
          | Inr None \<Rightarrow> Inr None
          | Inr (Some stored) \<Rightarrow>
              Inr (Some (filter (\<lambda>f. File_Fingerprint (file_at (fst s) f) = Some stored)
                           (Files (snd s))))))"

definition FindArchiveFilesContainingFingerprint :: "state \<Rightarrow> ptr \<Rightarrow> error + addr list" where
  "FindArchiveFilesContainingFingerprint s fp =
     (case FindFilesWithFingerprint s fp of
        Inl e \<Rightarrow> Inl e
      | Inr files \<Rightarrow>
          Inr (concat (map (\<lambda>file.
                 concat (map (\<lambda>a. map (\<lambda>entry. a)
                               (filter (\<lambda>entry. entry = Some file) (Entries (archive_at (fst s) a))))
                         (ArchiveFiles (snd s))))
               (case files of None \<Rightarrow> [] | Some fs \<Rightarrow> fs))))"

text \<open>
  \<^verbatim>\<open>GetFileByNameAndGitSHA\<close>: the first stored file with the path whose fingerprint
  has the git-sha (the fingerprint of a stored file with that path is read, nil or not).
  \<^verbatim>\<open>GetArchiveFile\<close> for a non-nil file: a file without a cache id is replaced by the
  stored file with its path and git-sha; the result is the first stored archive whose
  file is that file.
\<close>

fun GetFileByNameAndGitSHA_loop :: "heap \<Rightarrow> string \<Rightarrow> digest \<Rightarrow> addr list \<Rightarrow> error + ptr" where
  "GetFileByNameAndGitSHA_loop h path gitsha [] = Inr None"
| "GetFileByNameAndGitSHA_loop h path gitsha (e # es) =
     (if Path (file_at h e) = path
      then (case File_Fingerprint (file_at h e) of
              None \<Rightarrow> Inl nil_dereference
            | Some efa \<Rightarrow>
                if GitSHA (fingerprint_at h efa) = gitsha then Inr (Some e)
                else GetFileByNameAndGitSHA_loop h path gitsha es)
      else GetFileByNameAndGitSHA_loop h path gitsha es)"

definition GetFileByNameAndGitSHA :: "state \<Rightarrow> string \<Rightarrow> digest \<Rightarrow> error + ptr" where
  "GetFileByNameAndGitSHA s path gitsha =
     GetFileByNameAndGitSHA_loop (fst s) path gitsha (Files (snd s))"

definition GetArchiveFile :: "state \<Rightarrow> addr \<Rightarrow> error + ptr" where
  "GetArchiveFile s f =
     (case (if IsCached (file_cache (file_at (fst s) f)) then Inr (Some f)
            else case File_Fingerprint (file_at (fst s) f) of
                   None \<Rightarrow> Inl nil_dereference
                 | Some fa \<Rightarrow> GetFileByNameAndGitSHA s (Path (file_at (fst s) f))
                                (GitSHA (fingerprint_at (fst s) fa))) of
        Inl e \<Rightarrow> Inl e
      | Inr None \<Rightarrow> Inr None
      | Inr (Some f') \<Rightarrow>
          Inr (find (\<lambda>a. Archive_File (archive_at (fst s) a) = Some f') (ArchiveFiles (snd s))))"

section \<open>Verification and the id-addressed form of the store\<close>

text \<open>
  One loop of \<^verbatim>\<open>Verify\<close>: the first object of the slice whose cache id is not its
  index gives the error. \<open>cid_of\<close> reads the cache id of the object at an address,
  \<open>describe\<close> builds the error.
\<close>

fun verify_ids :: "(addr \<Rightarrow> nat) \<Rightarrow> (addr \<Rightarrow> nat \<Rightarrow> error) \<Rightarrow> addr list \<Rightarrow> nat \<Rightarrow> error option" where
  "verify_ids cid_of describe [] i = None"
| "verify_ids cid_of describe (a # as) i =
     (if cid_of a \<noteq> i then Some (describe a i) else verify_ids cid_of describe as (Suc i))"

definition Verify :: "state \<Rightarrow> error option" where
  "Verify s =
     (let h = fst s; v = snd s in
      case verify_ids (\<lambda>a. CacheID (fp_cache (fingerprint_at h a)))
             (\<lambda>a i. Error (''Incorrect key on fingerprint. Expected ''
                @ fmt_d (int (CacheID (fp_cache (fingerprint_at h a)))) @ '' to be '' @ fmt_d (int i)))
             (Fingerprints v) 0 of
        Some e \<Rightarrow> Some e
      | None \<Rightarrow>
     (case verify_ids (\<lambda>a. CacheID (file_cache (file_at h a)))
             (\<lambda>a i. Error (''Incorrect key on file. Expected '' @ Path (file_at h a) @ '' id ''
                @ fmt_d (int (CacheID (file_cache (file_at h a)))) @ '' to be '' @ fmt_d (int i)))
             (Files v) 0 of
        Some e \<Rightarrow> Some e
      | None \<Rightarrow>
     (case verify_ids (\<lambda>a. CacheID (archive_cache (archive_at h a)))
             (\<lambda>a i. Error (''Incorrect key on archive. Expected ''
                @ fmt_d (int (CacheID (archive_cache (archive_at h a)))) @ '' to be '' @ fmt_d (int i)))
             (ArchiveFiles v) 0 of
        Some e \<Rightarrow> Some e
      | None \<Rightarrow>
      verify_ids (\<lambda>a. CacheID (repo_cache (repo_at h a)))
             (\<lambda>a i. Error (''Incorrect key on git repo. Expected ''
                @ fmt_d (int (CacheID (repo_cache (repo_at h a)))) @ '' to be '' @ fmt_d (int i)))
             (GitRepoSources v) 0)))"

record SerializedFingerprint =
  sf_ID :: nat
  sf_Fingerprint :: Fingerprint

record SerializedFile =
  sfile_ID :: nat
  sfile_Path :: string
  sfile_Fingerprint :: nat

record SerializedArchiveFile =
  sa_ID :: nat
  sa_File :: nat
  sa_Entries :: "nat list"

record SerializedGitRepo =
  sr_ID :: nat
  sr_Commit :: digest
  sr_Tag :: string
  sr_Branch :: string
  sr_URL :: string
  sr_Files :: "nat list"

record SerializedCache =
  S_Fingerprints :: "SerializedFingerprint list"
  S_Files :: "SerializedFile list"
  S_Archives :: "SerializedArchiveFile list"
  S_Repos :: "SerializedGitRepo list"
  S_StatCache :: "(CachedStatFingerprintKey \<times> nat) list"

text \<open>A loop that stops at the first error.\<close>

fun map_err :: "('a \<Rightarrow> error + 'b) \<Rightarrow> 'a list \<Rightarrow> error + 'b list" where
  "map_err f [] = Inr []"
| "map_err f (x # xs) =
     (case f x of
        Inl e \<Rightarrow> Inl e
      | Inr y \<Rightarrow> (case map_err f xs of Inl e \<Rightarrow> Inl e | Inr ys \<Rightarrow> Inr (y # ys)))"

text \<open>\<^verbatim>\<open>p.CacheID()\<close> through a pointer: a nil pointer panics.\<close>

definition fingerprint_CacheID :: "heap \<Rightarrow> ptr \<Rightarrow> error + nat" where
  "fingerprint_CacheID h p =
     (case p of None \<Rightarrow> Inl nil_dereference
      | Some a \<Rightarrow> Inr (CacheID (fp_cache (fingerprint_at h a))))"

definition file_CacheID :: "heap \<Rightarrow> ptr \<Rightarrow> error + nat" where
  "file_CacheID h p =
     (case p of None \<Rightarrow> Inl nil_dereference
      | Some a \<Rightarrow> Inr (CacheID (file_cache (file_at h a))))"

definition serialize_file :: "heap \<Rightarrow> addr \<Rightarrow> error + SerializedFile" where
  "serialize_file h a =
     (case fingerprint_CacheID h (File_Fingerprint (file_at h a)) of
        Inl e \<Rightarrow> Inl e
      | Inr fid \<Rightarrow> Inr \<lparr>sfile_ID = CacheID (file_cache (file_at h a)),
                        sfile_Path = Path (file_at h a), sfile_Fingerprint = fid\<rparr>)"

definition serialize_archive :: "heap \<Rightarrow> nat \<times> addr \<Rightarrow> error + SerializedArchiveFile" where
  "serialize_archive h ia =
     (case file_CacheID h (Archive_File (archive_at h (snd ia))) of
        Inl e \<Rightarrow> Inl e
      | Inr fid \<Rightarrow>
         (case map_err (file_CacheID h) (Entries (archive_at h (snd ia))) of
            Inl e \<Rightarrow> Inl e
          | Inr es \<Rightarrow> Inr \<lparr>sa_ID = fst ia, sa_File = fid, sa_Entries = es\<rparr>))"

definition serialize_repo :: "heap \<Rightarrow> addr \<Rightarrow> error + SerializedGitRepo" where
  "serialize_repo h a =
     (case map_err (file_CacheID h) (Repo_Files (repo_at h a)) of
        Inl e \<Rightarrow> Inl e
      | Inr fs \<Rightarrow> Inr \<lparr>sr_ID = 0, sr_Commit = Commit (repo_at h a), sr_Tag = Tag (repo_at h a),
                       sr_Branch = Branch (repo_at h a), sr_URL = URL (repo_at h a),
                       sr_Files = fs\<rparr>)"

text \<open>
  \<^verbatim>\<open>NewSerializedCache\<close>. Fingerprints and archives take the slice index as id,
  files their cache id; the id of a repo is left at zero.
\<close>

definition NewSerializedCache :: "state \<Rightarrow> error + SerializedCache" where
  "NewSerializedCache s =
     (let h = fst s; v = snd s;
          fps = map (\<lambda>ia. \<lparr>sf_ID = fst ia, sf_Fingerprint = fingerprint_at h (snd ia)\<rparr>)
                  (enumerate 0 (Fingerprints v))
      in case map_err (serialize_file h) (Files v) of
           Inl e \<Rightarrow> Inl e
         | Inr files \<Rightarrow>
        (case map_err (serialize_archive h) (enumerate 0 (ArchiveFiles v)) of
           Inl e \<Rightarrow> Inl e
         | Inr archives \<Rightarrow>
        (case map_err (serialize_repo h) (GitRepoSources v) of
           Inl e \<Rightarrow> Inl e
         | Inr repos \<Rightarrow>
             Inr \<lparr>S_Fingerprints = fps, S_Files = files, S_Archives = archives, S_Repos = repos,
                  S_StatCache = map (\<lambda>kf. (fst kf, CacheID (fp_cache (fingerprint_at h (snd kf)))))
                                  (statCache v)\<rparr>)))"

text \<open>
  The loops of \<^verbatim>\<open>loadSerializedCache\<close>. Each allocates the objects it decodes;
  \<open>i\<close> is the slice index. An id that is not the index ends the load with the error
  of the source; an id outside the slice it indexes panics.
\<close>

fun load_fingerprints ::
  "heap \<Rightarrow> fingerprintInMemoryCache \<Rightarrow> SerializedFingerprint list \<Rightarrow> nat \<Rightarrow> error + state" where
  "load_fingerprints h v [] i = Inr (h, v)"
| "load_fingerprints h v (sf # sfs) i =
     (if i \<noteq> sf_ID sf then Inl (Error ''Mismatched fingerprint id'')
      else let f = sf_Fingerprint sf;
               f = f\<lparr>fp_cache := SetCacheID (fp_cache f) i\<rparr>;
               (a, h') = alloc_fingerprint h f
           in load_fingerprints h'
                (v\<lparr>Fingerprints := Fingerprints v @ [a],
                   gitSHAIndex := (gitSHAIndex v)(GitSHA f \<mapsto> i),
                   gitSHAFilter := Filter_Add (gitSHAFilter v) (GitSHA f)\<rparr>) sfs (Suc i))"

fun load_files ::
  "heap \<Rightarrow> fingerprintInMemoryCache \<Rightarrow> SerializedFile list \<Rightarrow> nat \<Rightarrow> error + state" where
  "load_files h v [] i = Inr (h, v)"
| "load_files h v (sf # sfs) i =
     (if i \<noteq> sfile_ID sf then Inl (Error ''Mismatched file id'')
      else case index (Fingerprints v) (sfile_Fingerprint sf) of
             Inl e \<Rightarrow> Inl e
           | Inr fp \<Rightarrow>
              (let (a, h') = alloc_file h \<lparr>Path = sfile_Path sf, File_Fingerprint = Some fp,
                                           file_cache = SetCacheID no_cache_id i\<rparr>
               in load_files h' (v\<lparr>Files := Files v @ [a]\<rparr>) sfs (Suc i)))"

fun load_archives ::
  "heap \<Rightarrow> fingerprintInMemoryCache \<Rightarrow> SerializedArchiveFile list \<Rightarrow> nat \<Rightarrow> error + state" where
  "load_archives h v [] i = Inr (h, v)"
| "load_archives h v (sa # sas) i =
     (if i \<noteq> sa_ID sa then Inl (Error ''Mismatched archive id'')
      else case map_err (index (Files v)) (sa_Entries sa) of
             Inl e \<Rightarrow> Inl e
           | Inr entries \<Rightarrow>
              (case index (Files v) (sa_File sa) of
                 Inl e \<Rightarrow> Inl e
               | Inr file \<Rightarrow>
                  (let (a, h') = alloc_archive h \<lparr>Archive_File = Some file,
                                                  Entries = map Some entries,
                                                  archive_cache = SetCacheID no_cache_id i\<rparr>
                   in load_archives h' (v\<lparr>ArchiveFiles := ArchiveFiles v @ [a]\<rparr>) sas (Suc i))))"

fun load_repos ::
  "heap \<Rightarrow> fingerprintInMemoryCache \<Rightarrow> SerializedGitRepo list \<Rightarrow> nat \<Rightarrow> error + state" where
  "load_repos h v [] i = Inr (h, v)"
| "load_repos h v (r # rs) i =
     (case map_err (index (Files v)) (sr_Files r) of
        Inl e \<Rightarrow> Inl e
      | Inr entries \<Rightarrow>
         (let (a, h') = alloc_repo h \<lparr>Commit = sr_Commit r, Tag = sr_Tag r, Branch = sr_Branch r,
                                      URL = sr_URL r, Repo_Files = map Some entries,
                                      repo_cache = SetCacheID no_cache_id i\<rparr>
          in load_repos h' (v\<lparr>GitRepoSources := GitRepoSources v @ [a]\<rparr>) rs (Suc i)))"

fun load_stat_cache ::
  "fingerprintInMemoryCache \<Rightarrow> (CachedStatFingerprintKey \<times> nat) list
     \<Rightarrow> error + fingerprintInMemoryCache" where
  "load_stat_cache v [] = Inr v"
| "load_stat_cache v (kf # kfs) =
     (case index (Fingerprints v) (snd kf) of
        Inl e \<Rightarrow> Inl e
      | Inr fp \<Rightarrow> load_stat_cache (v\<lparr>statCache := stat_add (statCache v) (fst kf) fp\<rparr>) kfs)"

text \<open>
  \<^verbatim>\<open>loadSerializedCache\<close>: the state after a load that returned nil. An error
  return and a panic are \<open>Inl\<close>; the partly loaded store an error return leaves behind
  is not kept.
\<close>

definition loadSerializedCache :: "state \<Rightarrow> SerializedCache \<Rightarrow> error + state" where
  "loadSerializedCache s onDisk =
     (case load_fingerprints (fst s) ((snd s)\<lparr>gitSHAIndex := Map.empty, Fingerprints := []\<rparr>)
             (S_Fingerprints onDisk) 0 of
        Inl e \<Rightarrow> Inl e
      | Inr s1 \<Rightarrow>
     (case load_files (fst s1) ((snd s1)\<lparr>Files := []\<rparr>) (S_Files onDisk) 0 of
        Inl e \<Rightarrow> Inl e
      | Inr s2 \<Rightarrow>
     (case load_archives (fst s2) ((snd s2)\<lparr>ArchiveFiles := []\<rparr>) (S_Archives onDisk) 0 of
        Inl e \<Rightarrow> Inl e
      | Inr s3 \<Rightarrow>
     (case load_repos (fst s3) ((snd s3)\<lparr>GitRepoSources := []\<rparr>) (S_Repos onDisk) 0 of
        Inl e \<Rightarrow> Inl e
      | Inr s4 \<Rightarrow>
     (case load_stat_cache (snd s4) (S_StatCache onDisk) of
        Inl e \<Rightarrow> Inl e
      | Inr v5 \<Rightarrow> Inr (fst s4, v5))))))"

text \<open>
  The two files \<^verbatim>\<open>PersistRememberedObjects\<close> writes, each by the serialized cache
  it decodes to (\<open>None\<close>: no such file). The gob, Snappy and YAML codecs are library
  code and taken to be lossless.
\<close>

record Disk =
  fingerprint_gob :: "SerializedCache option"
  fingerprint_yaml :: "SerializedCache option"

text \<open>
  \<^verbatim>\<open>PersistRememberedObjects\<close>; \<open>create_gob\<close> and \<open>create_yaml\<close> tell whether
  \<^verbatim>\<open>os.Create\<close> succeeds for the file.
\<close>

definition PersistRememberedObjects :: "state \<Rightarrow> bool \<Rightarrow> bool \<Rightarrow> Disk \<Rightarrow> error + Disk" where
  "PersistRememberedObjects s create_gob create_yaml disk =
     (case Verify s of
        Some err \<Rightarrow> Inr disk
      | None \<Rightarrow>
         (case NewSerializedCache s of
            Inl e \<Rightarrow> Inl e
          | Inr onDisk \<Rightarrow>
              if \<not> create_gob then Inr disk
              else if \<not> create_yaml then Inr (disk\<lparr>fingerprint_gob := Some onDisk\<rparr>)
              else Inr (disk\<lparr>fingerprint_gob := Some onDisk, fingerprint_yaml := Some onDisk\<rparr>)))"

text \<open>
  \<^verbatim>\<open>RestoreRememberedObjects\<close>: the restored store, or \<open>None\<close> for the nil it
  returns. The new store is loaded in the heap \<open>h\<close>. The error
  \<^verbatim>\<open>loadSerializedCache\<close> returns is ignored by the source, and \<^verbatim>\<open>Verify\<close>
  then dereferences the nil entries that the aborted load left in a slice.
\<close>

definition RestoreRememberedObjects ::
  "bool \<Rightarrow> (digest \<Rightarrow> nat list) \<Rightarrow> heap \<Rightarrow> Disk \<Rightarrow> error + state option" where
  "RestoreRememberedObjects useGob keys h disk =
     (case (if useGob then fingerprint_gob disk else fingerprint_yaml disk) of
        None \<Rightarrow> Inr None
      | Some onDisk \<Rightarrow>
         (case loadSerializedCache (h, newInMemoryCache keys) onDisk of
            Inl (Panic m) \<Rightarrow> Inl (Panic m)
          | Inl (Error m) \<Rightarrow> Inl nil_dereference
          | Inr s \<Rightarrow> (case Verify s of Some err \<Rightarrow> Inr None | None \<Rightarrow> Inr (Some s))))"

section \<open>Sequences of put operations\<close>

datatype put_op =
  PutFingerprintOp ptr
  | PutFileOp ptr
  | PutGitSourceOp ptr
  | PutArchiveFileOp ptr
  | PutStatFingerprintOp CachedStatFingerprintKey addr

definition apply_put :: "state \<Rightarrow> put_op \<Rightarrow> error + state" where
  "apply_put s op' =
     (case op' of
        PutFingerprintOp p \<Rightarrow> (case PutFingerprint s p of Inl e \<Rightarrow> Inl e | Inr r \<Rightarrow> Inr (snd r))
      | PutFileOp p \<Rightarrow> (case PutFile s p of Inl e \<Rightarrow> Inl e | Inr r \<Rightarrow> Inr (snd r))
      | PutGitSourceOp p \<Rightarrow> (case PutGitSource s p of Inl e \<Rightarrow> Inl e | Inr r \<Rightarrow> Inr (snd r))
      | PutArchiveFileOp p \<Rightarrow> (case PutArchiveFile s p of Inl e \<Rightarrow> Inl e | Inr r \<Rightarrow> Inr (snd r))
      | PutStatFingerprintOp key a \<Rightarrow> Inr (PutStatFingerprint s key a))"

fun run_puts :: "state \<Rightarrow> put_op list \<Rightarrow> error + state" where
  "run_puts s [] = Inr s"
| "run_puts s (op' # ops) =
     (case apply_put s op' of Inl e \<Rightarrow> Inl e | Inr s' \<Rightarrow> run_puts s' ops)"

text \<open>
  Every \<^verbatim>\<open>PutStatFingerprint\<close> of the sequence is given a fingerprint that is stored
  at that moment, as the callers in the scanner do (they pass the result of
  \<^verbatim>\<open>PutFingerprint\<close> or the fingerprint of a stored file).
\<close>

fun stat_puts_interned :: "state \<Rightarrow> put_op list \<Rightarrow> bool" where
  "stat_puts_interned s [] = True"
| "stat_puts_interned s (op' # ops) =
     ((case op' of
         PutStatFingerprintOp key a \<Rightarrow> a \<in> set (Fingerprints (snd s))
       | _ \<Rightarrow> True)
      \<and> (case apply_put s op' of Inl e \<Rightarrow> True | Inr s' \<Rightarrow> stat_puts_interned s' ops))"

text \<open>No object of the heap carries a cache id yet.\<close>

definition fresh_heap :: "heap \<Rightarrow> bool" where
  "fresh_heap h =
     ((\<forall>a. \<not> IsCached (fp_cache (fingerprint_at h a)))
      \<and> (\<forall>a. \<not> IsCached (file_cache (file_at h a))))"

section \<open>Invariants of the store\<close>

text \<open>
  What \<^verbatim>\<open>Verify\<close> checks: in each of the four slices the object at index \<open>i\<close> has
  the cache id \<open>i\<close>.
\<close>

definition ids_consistent :: "state \<Rightarrow> bool" where
  "ids_consistent s =
     ((\<forall>i < length (Fingerprints (snd s)).
          CacheID (fp_cache (fingerprint_at (fst s) (Fingerprints (snd s) ! i))) = i)
      \<and> (\<forall>i < length (Files (snd s)).
          CacheID (file_cache (file_at (fst s) (Files (snd s) ! i))) = i)
      \<and> (\<forall>i < length (ArchiveFiles (snd s)).
          CacheID (archive_cache (archive_at (fst s) (ArchiveFiles (snd s) ! i))) = i)
      \<and> (\<forall>i < length (GitRepoSources (snd s)).
          CacheID (repo_cache (repo_at (fst s) (GitRepoSources (snd s) ! i))) = i))"

text \<open>
  The stored fingerprints carry their index as cache id, and the git-sha index is
  sound: an indexed key was added to the filter and leads to a stored fingerprint,
  which has that git-sha when the key is not zero.
\<close>

definition fps_inv :: "state \<Rightarrow> bool" where
  "fps_inv s =
     ((\<forall>i < length (Fingerprints (snd s)).
          fp_cache (fingerprint_at (fst s) (Fingerprints (snd s) ! i)) = \<lparr>cid = i, hasID = True\<rparr>)
      \<and> (\<forall>g i. gitSHAIndex (snd s) g = Some i \<longrightarrow>
            i < length (Fingerprints (snd s)) \<and> Filter_Contains (gitSHAFilter (snd s)) g
            \<and> (\<not> IsZero g \<longrightarrow>
                 GitSHA (fingerprint_at (fst s) (Fingerprints (snd s) ! i)) = g)))"

definition files_inv :: "state \<Rightarrow> bool" where
  "files_inv s =
     (\<forall>i < length (Files (snd s)).
        file_cache (file_at (fst s) (Files (snd s) ! i)) = \<lparr>cid = i, hasID = True\<rparr>)"

definition archives_inv :: "state \<Rightarrow> bool" where
  "archives_inv s =
     (\<forall>i < length (ArchiveFiles (snd s)).
        archive_cache (archive_at (fst s) (ArchiveFiles (snd s) ! i)) = \<lparr>cid = i, hasID = True\<rparr>)"

definition repos_inv :: "state \<Rightarrow> bool" where
  "repos_inv s =
     (\<forall>i < length (GitRepoSources (snd s)).
        repo_cache (repo_at (fst s) (GitRepoSources (snd s) ! i)) = \<lparr>cid = i, hasID = True\<rparr>)"

definition store_inv :: "state \<Rightarrow> bool" where
  "store_inv s = (fps_inv s \<and> files_inv s \<and> archives_inv s \<and> repos_inv s)"

text \<open>
  The states \<^verbatim>\<open>PutFingerprint\<close> can end in when it does not return its argument
  as it is: the fingerprint at \<open>a\<close> merged into the stored one at \<open>e\<close>, or inserted.
\<close>

definition merged_state :: "state \<Rightarrow> addr \<Rightarrow> addr \<Rightarrow> state" where
  "merged_state s e a =
     ((fst s)\<lparr>fingerprint_at := (fingerprint_at (fst s))
         (e := fst (UpdateWith (fingerprint_at (fst s) e) (fingerprint_at (fst s) a)))\<rparr>, snd s)"

definition inserted_state :: "state \<Rightarrow> addr \<Rightarrow> state" where
  "inserted_state s a =
     ((fst s)\<lparr>fingerprint_at := (fingerprint_at (fst s))
         (a := (fingerprint_at (fst s) a)\<lparr>fp_cache :=
                  SetCacheID (fp_cache (fingerprint_at (fst s) a)) (length (Fingerprints (snd s)))\<rparr>)\<rparr>,
      (snd s)\<lparr>Fingerprints := Fingerprints (snd s) @ [a],
              gitSHAIndex := (gitSHAIndex (snd s))
                 (GitSHA (fingerprint_at (fst s) a) \<mapsto> length (Fingerprints (snd s))),
              gitSHAFilter := Filter_Add (gitSHAFilter (snd s)) (GitSHA (fingerprint_at (fst s) a))\<rparr>)"

text \<open>The state after \<^verbatim>\<open>PutFile\<close> appended the file at \<open>a\<close>, whose fingerprint was
  interned as \<open>fp\<close> in the state \<open>s\<close>.\<close>

definition file_inserted_state :: "state \<Rightarrow> addr \<Rightarrow> ptr \<Rightarrow> state" where
  "file_inserted_state s a fp =
     ((fst s)\<lparr>file_at := (file_at (fst s))
         (a := (file_at (fst s) a)\<lparr>File_Fingerprint := fp,
                  file_cache := SetCacheID (file_cache (file_at (fst s) a)) (length (Files (snd s)))\<rparr>)\<rparr>,
      (snd s)\<lparr>Files := Files (snd s) @ [a]\<rparr>)"

text \<open>The states \<^verbatim>\<open>PutGitSource\<close> and \<^verbatim>\<open>PutArchiveFile\<close> pass through: a repo
  appended with its remembered files, the file of an archive replaced by the stored
  one, an archive appended with its remembered entries.\<close>

definition repo_inserted_state :: "state \<Rightarrow> addr \<Rightarrow> ptr list \<Rightarrow> state" where
  "repo_inserted_state s a files =
     ((fst s)\<lparr>repo_at := (repo_at (fst s))
         (a := (repo_at (fst s) a)\<lparr>Repo_Files := files,
                  repo_cache := SetCacheID (repo_cache (repo_at (fst s) a))
                                  (length (GitRepoSources (snd s)))\<rparr>)\<rparr>,
      (snd s)\<lparr>GitRepoSources := GitRepoSources (snd s) @ [a]\<rparr>)"

definition archive_file_set :: "state \<Rightarrow> addr \<Rightarrow> ptr \<Rightarrow> state" where
  "archive_file_set s a file =
     ((fst s)\<lparr>archive_at := (archive_at (fst s))
         (a := (archive_at (fst s) a)\<lparr>Archive_File := file\<rparr>)\<rparr>, snd s)"

definition archive_inserted_state :: "state \<Rightarrow> addr \<Rightarrow> ptr list \<Rightarrow> state" where
  "archive_inserted_state s a entries =
     ((fst s)\<lparr>archive_at := (archive_at (fst s))
         (a := (archive_at (fst s) a)\<lparr>Entries := entries,
                  archive_cache := SetCacheID (archive_cache (archive_at (fst s) a))
                                     (length (ArchiveFiles (snd s)))\<rparr>)\<rparr>,
      (snd s)\<lparr>ArchiveFiles := ArchiveFiles (snd s) @ [a]\<rparr>)"

text \<open>
  What the put operations keep, besides the ids, in a heap whose objects carry no cache
  id before they are put: every fingerprint and file with a cache id is stored, and the
  pointers of the stored objects lead to stored objects (a stored file has a stored
  fingerprint, the file and the entries of a stored archive and the files of a stored
  repo are stored files, the stat cache holds stored fingerprints under distinct keys).
\<close>

definition interned_inv :: "state \<Rightarrow> bool" where
  "interned_inv s =
     ((\<forall>a. IsCached (fp_cache (fingerprint_at (fst s) a)) \<longrightarrow> a \<in> set (Fingerprints (snd s)))
      \<and> (\<forall>a. IsCached (file_cache (file_at (fst s) a)) \<longrightarrow> a \<in> set (Files (snd s))))"

definition refs_inv :: "state \<Rightarrow> bool" where
  "refs_inv s =
     ((\<forall>f \<in> set (Files (snd s)).
         \<exists>p \<in> set (Fingerprints (snd s)). File_Fingerprint (file_at (fst s) f) = Some p)
      \<and> (\<forall>a \<in> set (ArchiveFiles (snd s)).
           Archive_File (archive_at (fst s) a) \<in> Some ` set (Files (snd s))
           \<and> set (Entries (archive_at (fst s) a)) \<subseteq> Some ` set (Files (snd s)))
      \<and> (\<forall>r \<in> set (GitRepoSources (snd s)).
           set (Repo_Files (repo_at (fst s) r)) \<subseteq> Some ` set (Files (snd s)))
      \<and> snd ` set (statCache (snd s)) \<subseteq> set (Fingerprints (snd s))
      \<and> distinct (map fst (statCache (snd s))))"

text \<open>
  The serialized cache \<open>d\<close> is the id-addressed form of the pointer graph of the store
  \<open>s\<close>: the slices of the store and the lists of \<open>d\<close> have the same lengths, the
  record at index \<open>i\<close> of \<open>d\<close> has the id \<open>i\<close> (a repo has the id 0) and the fields of
  the object at index \<open>i\<close> of the store, and every pointer of that object is the node at
  the index that the record gives as id. Fingerprints are compared but for their cache
  id, which the encodings do not write.
\<close>

definition id_addressed_form :: "state \<Rightarrow> SerializedCache \<Rightarrow> bool" where
  "id_addressed_form s d =
     (list_all2 (\<lambda>a sf. (sf_Fingerprint sf)\<lparr>fp_cache := no_cache_id\<rparr>
                             = (fingerprint_at (fst s) a)\<lparr>fp_cache := no_cache_id\<rparr>)
        (Fingerprints (snd s)) (S_Fingerprints d)
      \<and> map sf_ID (S_Fingerprints d) = [0..<length (S_Fingerprints d)]
      \<and> list_all2 (\<lambda>a sf. sfile_Path sf = Path (file_at (fst s) a)
                      \<and> sfile_Fingerprint sf < length (Fingerprints (snd s))
                      \<and> File_Fingerprint (file_at (fst s) a)
                          = Some (Fingerprints (snd s) ! sfile_Fingerprint sf))
          (Files (snd s)) (S_Files d)
      \<and> map sfile_ID (S_Files d) = [0..<length (S_Files d)]
      \<and> list_all2 (\<lambda>a sa. sa_File sa < length (Files (snd s))
                      \<and> Archive_File (archive_at (fst s) a) = Some (Files (snd s) ! sa_File sa)
                      \<and> list_all (\<lambda>k. k < length (Files (snd s))) (sa_Entries sa)
                      \<and> Entries (archive_at (fst s) a)
                          = map (\<lambda>k. Some (Files (snd s) ! k)) (sa_Entries sa))
          (ArchiveFiles (snd s)) (S_Archives d)
      \<and> map sa_ID (S_Archives d) = [0..<length (S_Archives d)]
      \<and> list_all2 (\<lambda>a sr. sr_ID sr = 0
                      \<and> sr_Commit sr = Commit (repo_at (fst s) a)
                      \<and> sr_Tag sr = Tag (repo_at (fst s) a)
                      \<and> sr_Branch sr = Branch (repo_at (fst s) a)
                      \<and> sr_URL sr = URL (repo_at (fst s) a)
                      \<and> list_all (\<lambda>k. k < length (Files (snd s))) (sr_Files sr)
                      \<and> Repo_Files (repo_at (fst s) a)
                          = map (\<lambda>k. Some (Files (snd s) ! k)) (sr_Files sr))
          (GitRepoSources (snd s)) (S_Repos d)
      \<and> list_all2 (\<lambda>kp ki. fst ki = fst kp
                      \<and> snd ki < length (Fingerprints (snd s))
                      \<and> snd kp = Fingerprints (snd s) ! snd ki)
          (statCache (snd s)) (S_StatCache d))"

text \<open>
  What \<^verbatim>\<open>loadSerializedCache\<close> needs of a serialized cache to load it: the ids of the
  fingerprints, files and archives are their indices, every id that stands for a pointer
  is an index of the list it points into, and the keys of the stat cache are distinct (it
  is a map in the source).
\<close>

definition ids_in_range :: "SerializedCache \<Rightarrow> bool" where
  "ids_in_range d =
     (map sf_ID (S_Fingerprints d) = [0..<length (S_Fingerprints d)]
      \<and> map sfile_ID (S_Files d) = [0..<length (S_Files d)]
      \<and> list_all (\<lambda>sf. sfile_Fingerprint sf < length (S_Fingerprints d)) (S_Files d)
      \<and> map sa_ID (S_Archives d) = [0..<length (S_Archives d)]
      \<and> list_all (\<lambda>sa. sa_File sa < length (S_Files d)
                    \<and> list_all (\<lambda>k. k < length (S_Files d)) (sa_Entries sa)) (S_Archives d)
      \<and> list_all (\<lambda>sr. sr_ID sr = 0
                    \<and> list_all (\<lambda>k. k < length (S_Files d)) (sr_Files sr)) (S_Repos d)
      \<and> list_all (\<lambda>ki. snd ki < length (S_Fingerprints d)) (S_StatCache d)
      \<and> distinct (map fst (S_StatCache d)))"

text \<open>
  Two stores hold the same pointer graph, node by node in the order of their slices: the
  fingerprints at the same index are equal (but for the cache id), the files at the same
  index have the same path and their fingerprints are at the same index, the archives at
  the same index have their files at the same index and their entries, in order, at the
  same indices, the repos at the same index have the same commit, tag, branch and URL and
  their files at the same indices, and the stat caches have the same keys, each leading to
  fingerprints at the same index.
\<close>

definition store_isomorphic :: "state \<Rightarrow> state \<Rightarrow> bool" where
  "store_isomorphic s s' =
     (list_all2 (\<lambda>a a'. (fingerprint_at (fst s) a)\<lparr>fp_cache := no_cache_id\<rparr>
                          = (fingerprint_at (fst s') a')\<lparr>fp_cache := no_cache_id\<rparr>)
        (Fingerprints (snd s)) (Fingerprints (snd s'))
      \<and> list_all2 (\<lambda>a a'. Path (file_at (fst s) a) = Path (file_at (fst s') a')
            \<and> (\<exists>k < length (Fingerprints (snd s)).
                  File_Fingerprint (file_at (fst s) a) = Some (Fingerprints (snd s) ! k)
                  \<and> File_Fingerprint (file_at (fst s') a') = Some (Fingerprints (snd s') ! k)))
          (Files (snd s)) (Files (snd s'))
      \<and> list_all2 (\<lambda>a a'.
            (\<exists>k < length (Files (snd s)).
                Archive_File (archive_at (fst s) a) = Some (Files (snd s) ! k)
                \<and> Archive_File (archive_at (fst s') a') = Some (Files (snd s') ! k))
            \<and> (\<exists>ks. list_all (\<lambda>k. k < length (Files (snd s))) ks
                  \<and> Entries (archive_at (fst s) a) = map (\<lambda>k. Some (Files (snd s) ! k)) ks
                  \<and> Entries (archive_at (fst s') a') = map (\<lambda>k. Some (Files (snd s') ! k)) ks))
          (ArchiveFiles (snd s)) (ArchiveFiles (snd s'))
      \<and> list_all2 (\<lambda>a a'. Commit (repo_at (fst s) a) = Commit (repo_at (fst s') a')
            \<and> Tag (repo_at (fst s) a) = Tag (repo_at (fst s') a')
            \<and> Branch (repo_at (fst s) a) = Branch (repo_at (fst s') a')
            \<and> URL (repo_at (fst s) a) = URL (repo_at (fst s') a')
            \<and> (\<exists>ks. list_all (\<lambda>k. k < length (Files (snd s))) ks
                  \<and> Repo_Files (repo_at (fst s) a) = map (\<lambda>k. Some (Files (snd s) ! k)) ks
                  \<and> Repo_Files (repo_at (fst s') a') = map (\<lambda>k. Some (Files (snd s') ! k)) ks))
          (GitRepoSources (snd s)) (GitRepoSources (snd s'))
      \<and> list_all2 (\<lambda>kp kp'. fst kp = fst kp'
            \<and> (\<exists>k < length (Fingerprints (snd s)).
                  snd kp = Fingerprints (snd s) ! k \<and> snd kp' = Fingerprints (snd s') ! k))
          (statCache (snd s)) (statCache (snd s')))"

section \<open>The passthrough tee (package scanner)\<close>

text \<open>
  An \<^verbatim>\<open>io.Reader\<close> interface value: its dynamic type, as far as the type assertion
  of \<^verbatim>\<open>fingerprintPassthrough\<close> can tell types apart, and the stream it reads.
  \<^verbatim>\<open>passthroughHasher\<close> and \<^verbatim>\<open>*passthroughHasher\<close> are two different types.
\<close>

datatype reader_type =
  NilReader
  | PassthroughHasherValue
  | PassthroughHasherPointer
  | OtherReader

record Reader =
  reader_type :: reader_type
  reader_stream :: InputStream

text \<open>
  What the read ends of the two pipes of \<^verbatim>\<open>fingerprintPassthrough\<close> deliver: the
  copying goroutine only logs an error of the reader it copies from and closes both
  write ends, so each read end delivers the bytes read so far and then the end of the
  stream.
\<close>

definition pipe_stream :: "InputStream \<Rightarrow> InputStream" where
  "pipe_stream data = \<lparr>stream_bytes = stream_bytes data, stream_error = None\<rparr>"

text \<open>
  \<^verbatim>\<open>fingerprintPassthrough\<close>: the reader returned, the fingerprint delivered on the
  channel, and the state once the two goroutines have ended. \<open>stat\<close> is the stat-cache
  key of the file, \<open>None\<close> for a nil \<^verbatim>\<open>stat\<close>. The type assertion
  \<^verbatim>\<open>r.(passthroughHasher)\<close> holds for the dynamic type \<^verbatim>\<open>passthroughHasher\<close>
  only; the reader returned is \<^verbatim>\<open>&passthroughHasher{...}\<close>.
\<close>

definition fingerprintPassthrough ::
  "hash_functions \<Rightarrow> state \<Rightarrow> Reader \<Rightarrow> int \<Rightarrow> CachedStatFingerprintKey option
     \<Rightarrow> error + (Reader \<times> ptr \<times> state)" where
  "fingerprintPassthrough H s r size' stat =
     (if reader_type r = PassthroughHasherValue then Inl (Panic ''nested passthrough hasher!'')
      else if reader_type r = NilReader then Inl (Panic ''nil reader? seriously?'')
      else case (case stat of None \<Rightarrow> None | Some key \<Rightarrow> GetStatFingerprint s key) of
             Some cfp \<Rightarrow> Inr (r, Some cfp, s)
           | None \<Rightarrow>
              (case CalculateSums H new_Fingerprint (pipe_stream (reader_stream r)) size' of
                 (f, Some err) \<Rightarrow> Inl (Panic (case err of Error m \<Rightarrow> m | Panic m \<Rightarrow> m))
               | (f, None) \<Rightarrow>
                  (let (a, h') = alloc_fingerprint (fst s) f
                   in case PutFingerprint (h', snd s) (Some a) of
                        Inl e \<Rightarrow> Inl e
                      | Inr (fp, s') \<Rightarrow>
                         (let s'' = (case (stat, fp) of
                                       (Some key, Some fa) \<Rightarrow> PutStatFingerprint s' key fa
                                     | _ \<Rightarrow> s')
                          in Inr (\<lparr>reader_type = PassthroughHasherPointer,
                                    reader_stream = pipe_stream (reader_stream r)\<rparr>, fp, s'')))))"

text \<open>A heap for the concrete instances below: every object at its zero value.\<close>

definition blank_heap :: heap where
  "blank_heap = \<lparr>fingerprint_at = (\<lambda>a. new_Fingerprint),
     file_at = (\<lambda>a. \<lparr>Path = [], File_Fingerprint = None, file_cache = no_cache_id\<rparr>),
     archive_at = (\<lambda>a. \<lparr>Archive_File = None, Entries = [], archive_cache = no_cache_id\<rparr>),
     repo_at = (\<lambda>a. \<lparr>Commit = zero_digest 20, Tag = [], Branch = [], URL = [],
                      Repo_Files = [], repo_cache = no_cache_id\<rparr>),
     next_fingerprint = 0, next_file = 0, next_archive = 0, next_repo = 0\<rparr>"

text \<open>Filter keys for the concrete instances: two bits, chosen by the length of the
  key (every git-sha selects the same bits, so the filter answers yes for every
  git-sha once one was added).\<close>

definition length_key :: "digest \<Rightarrow> nat list" where
  "length_key d = [length d, Suc (length d)]"

text \<open>A heap and a store for the concrete instances below: three fingerprints (the
  first two share their MD5 digest but differ in size and git-sha, the third has the
  same MD5 digest and no git-sha), two files and one archive that holds the first file.\<close>

definition example_heap :: heap where
  "example_heap = blank_heap\<lparr>fingerprint_at := (fingerprint_at blank_heap)
      (0 := new_Fingerprint\<lparr>GitSHA := replicate 20 1, MD5 := replicate 16 9, Size := 5\<rparr>,
       1 := new_Fingerprint\<lparr>GitSHA := replicate 20 2, MD5 := replicate 16 9, Size := 7\<rparr>,
       2 := new_Fingerprint\<lparr>MD5 := replicate 16 9, Size := 5\<rparr>),
     file_at := (file_at blank_heap)
      (0 := \<lparr>Path = ''a.txt'', File_Fingerprint = Some 0, file_cache = no_cache_id\<rparr>,
       1 := \<lparr>Path = ''b.tar'', File_Fingerprint = Some 1, file_cache = no_cache_id\<rparr>),
     archive_at := (archive_at blank_heap)
      (0 := \<lparr>Archive_File = Some 1, Entries = [Some 0], archive_cache = no_cache_id\<rparr>)\<rparr>"

definition example_store :: fingerprintInMemoryCache where
  "example_store = newInMemoryCache length_key"

text \<open>
  Two notions used to reason about \<^verbatim>\<open>CalculateSums\<close>: the field of a fingerprint
  that holds the digest of a given dynamic type, and the effect of one hasher (created
  when \<open>c\<close> holds) on the fingerprint.
\<close>

definition field_of :: "hash_kind \<Rightarrow> Fingerprint \<Rightarrow> digest" where
  "field_of k f = (case k of GitKind \<Rightarrow> GitSHA f | MD5Kind \<Rightarrow> MD5 f | SHA1Kind \<Rightarrow> SHA1 f
     | SHA256Kind \<Rightarrow> SHA256 f | SHA384Kind \<Rightarrow> SHA384 f | SHA512Kind \<Rightarrow> SHA512 f
     | Hwy64Kind \<Rightarrow> Hwy64 f | Hwy128Kind \<Rightarrow> Hwy128 f | Hwy256Kind \<Rightarrow> Hwy256 f)"

definition run_hasher ::
  "hash_functions \<Rightarrow> byte list \<Rightarrow> bool \<Rightarrow> AsyncHash \<Rightarrow> Fingerprint \<Rightarrow> Fingerprint" where
  "run_hasher H bs c h f = (if c then store_digest f (Done H (Write h bs)) else f)"

text \<open>Hash functions for the concrete instances below: each digest is a constant.\<close>

definition constant_hashes :: hash_functions where
  "constant_hashes = \<lparr>md5_of = (\<lambda>bs. replicate 16 1), sha1_of = (\<lambda>bs. replicate 20 2),
     sha256_of = (\<lambda>bs. replicate 32 3), sha384_of = (\<lambda>bs. replicate 48 4),
     sha512_of = (\<lambda>bs. replicate 64 5), hwy64_of = (\<lambda>bs. replicate 8 6),
     hwy128_of = (\<lambda>bs. replicate 16 7), hwy256_of = (\<lambda>bs. replicate 32 8)\<rparr>"

section \<open>Recursive archive scanning (package scanner)\<close>

text \<open>\<^verbatim>\<open>strings.HasSuffix\<close>.\<close>

definition HasSuffix :: "string \<Rightarrow> string \<Rightarrow> bool" where
  "HasSuffix s suffix =
     (length suffix \<le> length s \<and> drop (length s - length suffix) s = suffix)"

text \<open>The keys of the maps \<^verbatim>\<open>archiveScanners\<close> and \<^verbatim>\<open>pkgScanners\<close>.\<close>

definition archiveScanners :: "string list" where
  "archiveScanners = [''.zip'', ''.jar'', ''.tar'', ''.txz'', ''.tar.xz'', ''tar.sz'',
     ''tar.lzma'', ''.tgz'', ''.tar.gz'', ''.tar.bz2'', ''.tbz2'', ''.ar'', ''.cpio'']"

definition pkgScanners :: "string list" where
  "pkgScanners = [''.rpm'', ''.deb'']"

definition IsScannableArchive :: "string \<Rightarrow> bool" where
  "IsScannableArchive name = list_ex (HasSuffix name) archiveScanners"

definition IsScannablePackage :: "string \<Rightarrow> bool" where
  "IsScannablePackage name = list_ex (HasSuffix name) pkgScanners"

text \<open>
  An entry of a container as the format readers (tar, zip, ar, cpio, rpm) present it:
  its name, and the non-directory entries its own body yields when it is read as a
  container in turn (none for a plain blob).
\<close>

datatype entry = Entry string "entry list"

text \<open>
  What the scan does with a file or an entry: the scanner of an archive or of a package
  runs on it (\<^verbatim>\<open>IdentifyArchiveContents\<close> or \<^verbatim>\<open>IdentifyPackageContents\<close> called with
  the given name, depth and limit, for a name that has a scanner), or the entry is
  fingerprinted as a plain blob (\<^verbatim>\<open>CalculateSums\<close>, \<^verbatim>\<open>PutFingerprint\<close>,
  \<^verbatim>\<open>PutFile\<close>).
\<close>

datatype scan_event =
  ScanArchive string int int
  | ScanPackage string int int
  | FingerprintBlob string

text \<open>
  \<^verbatim>\<open>fingerprintArchiveEntry\<close>, together with the scanners it reaches through
  \<^verbatim>\<open>IdentifyArchiveContents\<close> and \<^verbatim>\<open>IdentifyPackageContents\<close>, which it calls
  with a nil \<^verbatim>\<open>stat\<close> (so that neither looks into the stat cache) and with a name
  that has a scanner: each scanner calls \<^verbatim>\<open>fingerprintArchiveEntry\<close> on every entry
  with the depth and limit it was given. The result lists the events in the order of the
  scan.
\<close>

fun fingerprintArchiveEntry :: "entry \<Rightarrow> int \<Rightarrow> int \<Rightarrow> scan_event list" where
  "fingerprintArchiveEntry (Entry name body) depth limit =
     (if IsScannableArchive name
      then ScanArchive name (depth + 1) limit
             # concat (map (\<lambda>e. fingerprintArchiveEntry e (depth + 1) limit) body)
      else if IsScannablePackage name
      then ScanPackage name (depth + 1) limit
             # concat (map (\<lambda>e. fingerprintArchiveEntry e (depth + 1) limit) body)
      else [FingerprintBlob name])"

text \<open>
  An \<^verbatim>\<open>os.FileInfo\<close> as the scanners use it: the size of the file, and the key of the
  stat cache that \<^verbatim>\<open>newCachedStatFingerprintKey\<close> derives from it.
\<close>

record FileInfo =
  FileInfo_Size :: int
  FileInfo_key :: CachedStatFingerprintKey

text \<open>
  The loop at the head of \<^verbatim>\<open>IdentifyArchiveContents\<close> over the files that have the
  fingerprint found in the stat cache: the first archive \<^verbatim>\<open>GetArchiveFile\<close> finds for
  one of them.
\<close>

fun first_known_archive :: "state \<Rightarrow> addr list \<Rightarrow> error + ptr" where
  "first_known_archive s [] = Inr None"
| "first_known_archive s (f # fs) =
     (case GetArchiveFile s f of
        Inl e \<Rightarrow> Inl e
      | Inr (Some existing) \<Rightarrow> Inr (Some existing)
      | Inr None \<Rightarrow> first_known_archive s fs)"

text \<open>
  \<^verbatim>\<open>IdentifyArchiveContents\<close> as the list of the events of the scan, in a given state
  of the store; \<open>stat\<close> is \<open>None\<close> for a nil \<^verbatim>\<open>stat\<close>, \<open>body\<close> holds the entries the
  scanner of the file reads. With a \<^verbatim>\<open>stat\<close>, two different sizes end the program
  (\<^verbatim>\<open>Fatal\<close>), and an archive already known for the fingerprint in the stat cache is
  returned without any scan. A file name without a scanner yields nothing.
\<close>

definition IdentifyArchiveContents ::
  "state \<Rightarrow> string \<Rightarrow> int \<Rightarrow> FileInfo option \<Rightarrow> entry list \<Rightarrow> int \<Rightarrow> int
     \<Rightarrow> error + scan_event list" where
  "IdentifyArchiveContents s fileName size' stat body depth limit =
     (let scan = (if IsScannableArchive fileName
                  then ScanArchive fileName depth limit
                         # concat (map (\<lambda>e. fingerprintArchiveEntry e depth limit) body)
                  else [])
      in case stat of
           None \<Rightarrow> Inr scan
         | Some st \<Rightarrow>
            (let size' = (if size' = 0 \<and> FileInfo_Size st \<noteq> 0 then FileInfo_Size st else size')
             in if size' \<noteq> FileInfo_Size st then Inl (Panic ''2 different sizes given'')
                else case GetStatFingerprint s (FileInfo_key st) of
                       None \<Rightarrow> Inr scan
                     | Some fp \<Rightarrow>
                        (case FindFilesWithFingerprint s (Some fp) of
                           Inl e \<Rightarrow> Inl e
                         | Inr files \<Rightarrow>
                            (case first_known_archive s (case files of None \<Rightarrow> [] | Some fs \<Rightarrow> fs) of
                               Inl e \<Rightarrow> Inl e
                             | Inr (Some existing) \<Rightarrow> Inr []
                             | Inr None \<Rightarrow> Inr scan))))"

text \<open>
  \<^verbatim>\<open>deepScanWorker\<close> with the scanner \<^verbatim>\<open>IdentifyArchiveContents\<close> on one file of its
  input: the size of its \<^verbatim>\<open>Stat\<close>, depth 0, limit 10.
\<close>

definition deepScanWorker :: "state \<Rightarrow> string \<Rightarrow> FileInfo \<Rightarrow> entry list \<Rightarrow> error + scan_event list" where
  "deepScanWorker s path stat body =
     IdentifyArchiveContents s path (FileInfo_Size stat) (Some stat) body 0 10"

text \<open>A chain of \<open>n\<close> zip files nested in one another around one text file.\<close>

fun nested_zips :: "nat \<Rightarrow> entry" where
  "nested_zips 0 = Entry ''c.txt'' []"
| "nested_zips (Suc n) = Entry ''inner.zip'' [nested_zips n]"

text \<open>An event without its depth and limit: which entry was handled, and how.\<close>

fun forget_depth :: "scan_event \<Rightarrow> scan_event" where
  "forget_depth (ScanArchive name depth limit) = ScanArchive name 0 0"
| "forget_depth (ScanPackage name depth limit) = ScanPackage name 0 0"
| "forget_depth (FingerprintBlob name) = FingerprintBlob name"

section \<open>Zero digests\<close>

lemma IsZero_Nil: "IsZero []"
  by (simp add: IsZero_def)

lemma IsZero_Cons: "IsZero (b # d) = (b = 0 \<and> IsZero d)"
  by (simp add: IsZero_def)

lemma IsZero_replicate: "IsZero (replicate n b) = (n = 0 \<or> b = 0)"
  by (induction n) (auto simp: IsZero_Cons IsZero_Nil)

lemma IsZero_zero_digest: "IsZero (zero_digest n)"
  by (simp add: zero_digest_def IsZero_replicate)

section \<open>Equivalence of fingerprints\<close>

text \<open>
  C9. Two fingerprints whose sizes are both non-zero and differ are never equivalent
  under \<^verbatim>\<open>Is\<close>, whatever digests they share: the size test comes before every
  digest comparison. Two distinct sizes mean two distinct objects, so the pointer test
  of the source is false.
\<close>

theorem Is_size_mismatch:
  assumes "Size a \<noteq> 0" and "Size b \<noteq> 0" and "Size a \<noteq> Size b"
  shows "\<not> Fingerprint_Is False a b"
  using assms by (simp add: Fingerprint_Is_def Is_values_def)

theorem Is_size_mismatch_witness:
  "Size (new_Fingerprint\<lparr>MD5 := replicate 16 7, Size := 5\<rparr>) \<noteq> 0
   \<and> Size (new_Fingerprint\<lparr>MD5 := replicate 16 7, Size := 9\<rparr>) \<noteq> 0
   \<and> MD5 (new_Fingerprint\<lparr>MD5 := replicate 16 7, Size := 5\<rparr>)
       = MD5 (new_Fingerprint\<lparr>MD5 := replicate 16 7, Size := 9\<rparr>)
   \<and> \<not> IsZero (MD5 (new_Fingerprint\<lparr>MD5 := replicate 16 7, Size := 5\<rparr>))
   \<and> \<not> Fingerprint_Is False (new_Fingerprint\<lparr>MD5 := replicate 16 7, Size := 5\<rparr>)
         (new_Fingerprint\<lparr>MD5 := replicate 16 7, Size := 9\<rparr>)"
  using Is_size_mismatch [of "new_Fingerprint\<lparr>MD5 := replicate 16 7, Size := 5\<rparr>"
      "new_Fingerprint\<lparr>MD5 := replicate 16 7, Size := 9\<rparr>"]
  by (simp add: new_Fingerprint_def IsZero_def)

section \<open>Parsing and applying matchers\<close>

lemma match_alternatives_sound:
  "match_alternatives as pat = Some (a, h) \<Longrightarrow>
     a \<in> set as \<and> pat = a @ '':'' @ h \<and> hex_digits h"
proof (induction as)
  case Nil
  then show ?case by simp
next
  case (Cons x xs)
  show ?case
  proof (cases "take (length x + 1) pat = x @ '':'' \<and> hex_digits (drop (length x + 1) pat)")
    case True
    with Cons.prems have eq: "a = x" "h = drop (length x + 1) pat" by auto
    have "pat = take (length x + 1) pat @ drop (length x + 1) pat" by simp
    with True eq show ?thesis by auto
  next
    case False
    with Cons.prems have "match_alternatives xs pat = Some (a, h)" by auto
    with Cons.IH show ?thesis by auto
  qed
qed

lemma match_alternatives_complete:
  "a \<in> set as \<Longrightarrow> hex_digits h \<Longrightarrow> \<exists>r. match_alternatives as (a @ '':'' @ h) = Some r"
  by (induction as) auto

lemma NewDigestMatcher_accepts_iff:
  "(\<exists>m. NewDigestMatcher pat = Inr m)
     = (\<exists>a h. pat = a @ '':'' @ h \<and> a \<in> set matcher_algorithms \<and> hex_digits h)"
proof
  assume "\<exists>m. NewDigestMatcher pat = Inr m"
  then obtain a h where "match_alternatives matcher_algorithms pat = Some (a, h)"
    by (auto simp: NewDigestMatcher_def FindStringSubmatch_def split: option.splits)
  from match_alternatives_sound [OF this]
  show "\<exists>a h. pat = a @ '':'' @ h \<and> a \<in> set matcher_algorithms \<and> hex_digits h" by blast
next
  assume "\<exists>a h. pat = a @ '':'' @ h \<and> a \<in> set matcher_algorithms \<and> hex_digits h"
  then obtain a h where p: "pat = a @ '':'' @ h"
    and "a \<in> set matcher_algorithms" "hex_digits h"
    by blast
  from match_alternatives_complete [OF this(2,3)] p
  show "\<exists>m. NewDigestMatcher pat = Inr m"
    by (auto simp: NewDigestMatcher_def FindStringSubmatch_def split: option.splits)
qed

lemma NewDigestMatcher_parts:
  "NewDigestMatcher pat = Inr m \<Longrightarrow>
     T m \<in> set matcher_algorithms \<and> hex_digits (P m) \<and> B m = DecodeString (P m)
     \<and> pat = T m @ '':'' @ P m"
  by (auto simp: NewDigestMatcher_def FindStringSubmatch_def split: option.splits
      dest: match_alternatives_sound)

lemma named_GetDigest:
  "t \<in> set matcher_algorithms \<Longrightarrow> t \<noteq> ''*'' \<Longrightarrow>
     GetDigest f t = Some (if t = ''git'' \<or> t = ''gitsha'' then GitSHA f
        else if t = ''sha1'' then SHA1 f else if t = ''sha256'' then SHA256 f
        else if t = ''sha384'' then SHA384 f else SHA512 f)"
  by (auto simp: matcher_algorithms_def GetDigest_def)

lemma is_hex_fromHexChar: "is_hex_char c \<Longrightarrow> \<exists>n. fromHexChar c = Some n"
  by (auto simp: is_hex_char_def fromHexChar_def)

lemma DecodeString_hex:
  "list_all is_hex_char h \<Longrightarrow>
     (even (length h) \<longrightarrow> (\<exists>bs. DecodeString h = Some bs \<and> 2 * length bs = length h))
     \<and> (odd (length h) \<longrightarrow> DecodeString h = None)"
proof (induction h rule: DecodeString.induct)
  case 1
  show ?case by simp
next
  case (2 c)
  show ?case by simp
next
  case (3 a b cs)
  from "3.prems" have "is_hex_char a" "is_hex_char b" by simp_all
  then obtain x y where xy: "fromHexChar a = Some x" "fromHexChar b = Some y"
    using is_hex_fromHexChar by blast
  from "3.prems" have "list_all is_hex_char cs" by simp
  from "3.IH" [OF refl xy(1) xy(2) this] xy show ?case by auto
qed

lemma length_EncodeToString: "length (EncodeToString d) = 2 * length d"
  by (induction d) (simp_all add: EncodeToString_def hex_byte_def)

lemma DigestMatcher_Match_hex:
  assumes "hex_digits (P m)" "B m = DecodeString (P m)"
  shows "DigestMatcher_Match m d =
     (if even (length (P m))
      then (\<exists>bs. DecodeString (P m) = Some bs \<and> 2 * length bs = length (P m)
                \<and> length bs \<le> length d \<and> take (length bs) d = bs)
      else length (P m) \<le> 2 * length d \<and> take (length (P m)) (EncodeToString d) = P m)"
proof (cases "even (length (P m))")
  case True
  from assms(1) have "list_all is_hex_char (P m)" by (simp add: hex_digits_def)
  from DecodeString_hex [OF this] True obtain bs where
    "DecodeString (P m) = Some bs" "2 * length bs = length (P m)" by blast
  with True assms(2) show ?thesis
    by (auto simp: DigestMatcher_Match_def HasPrefix_def Digest_Size_def Digest_Bytes_def)
next
  case False
  from assms(1) have "list_all is_hex_char (P m)" by (simp add: hex_digits_def)
  from DecodeString_hex [OF this] False have "DecodeString (P m) = None" by blast
  with False assms(2) show ?thesis
    by (simp add: DigestMatcher_Match_def HasPrefix_def Digest_Size_def Digest_String_def
        length_EncodeToString)
qed

lemma example_sha256_populated: "\<not> IsZero ([0x9f, 0x86] @ replicate 30 1)"
  by (simp add: IsZero_Cons)

text \<open>
  C4. \<^verbatim>\<open>NewDigestMatcher\<close> accepts exactly the strings \<open>algo:hex\<close> with \<open>algo\<close>
  one of \<open>*\<close>, \<open>git\<close>, \<open>gitsha\<close>, \<open>sha1\<close>, \<open>sha256\<close>, \<open>sha384\<close>,
  \<open>sha512\<close> and \<open>hex\<close> one or more hexadecimal digits. A matcher with the
  algorithm \<open>*\<close> matches no fingerprint at all: \<^verbatim>\<open>FingerprintMatcher.Match\<close> returns
  false for it, the comparison against all the digests of the fingerprint being left
  as a TODO. A matcher with a named algorithm is compared with that one digest of the
  fingerprint: a pattern of an even number of digits matches when the bytes it decodes
  to are a prefix of the digest, a pattern of an odd number of digits when it is a
  prefix of the lowercase hexadecimal form of the digest.
\<close>

theorem parse_matcher_accepts_and_wildcard:
  "((\<exists>m. NewDigestMatcher pat = Inr m)
      = (\<exists>a h. pat = a @ '':'' @ h \<and> a \<in> set matcher_algorithms \<and> hex_digits h))
   \<and> (\<forall>m f. NewDigestMatcher pat = Inr m \<and> T m = ''*'' \<longrightarrow> \<not> FingerprintMatcher_Match m f)
   \<and> (\<forall>m f d. NewDigestMatcher pat = Inr m \<and> T m \<noteq> ''*''
         \<and> d = (if T m = ''git'' \<or> T m = ''gitsha'' then GitSHA f
                else if T m = ''sha1'' then SHA1 f else if T m = ''sha256'' then SHA256 f
                else if T m = ''sha384'' then SHA384 f else SHA512 f) \<longrightarrow>
         pat = T m @ '':'' @ P m
         \<and> GetDigest f (T m) = Some d
         \<and> FingerprintMatcher_Match m f
            = (if even (length (P m))
               then (\<exists>bs. DecodeString (P m) = Some bs \<and> 2 * length bs = length (P m)
                         \<and> length bs \<le> length d \<and> take (length bs) d = bs)
               else length (P m) \<le> 2 * length d
                    \<and> take (length (P m)) (EncodeToString d) = P m))"
proof (intro conjI allI impI)
  show "(\<exists>m. NewDigestMatcher pat = Inr m)
      = (\<exists>a h. pat = a @ '':'' @ h \<and> a \<in> set matcher_algorithms \<and> hex_digits h)"
    by (rule NewDigestMatcher_accepts_iff)
next
  fix m f assume "NewDigestMatcher pat = Inr m \<and> T m = ''*''"
  then show "\<not> FingerprintMatcher_Match m f" by (simp add: FingerprintMatcher_Match_def)
next
  fix m and f :: Fingerprint and d
  assume a: "NewDigestMatcher pat = Inr m \<and> T m \<noteq> ''*''
         \<and> d = (if T m = ''git'' \<or> T m = ''gitsha'' then GitSHA f
                else if T m = ''sha1'' then SHA1 f else if T m = ''sha256'' then SHA256 f
                else if T m = ''sha384'' then SHA384 f else SHA512 f)"
  then have p: "T m \<in> set matcher_algorithms" "hex_digits (P m)" "B m = DecodeString (P m)"
    "pat = T m @ '':'' @ P m"
    using NewDigestMatcher_parts by blast+
  from p(4) show "pat = T m @ '':'' @ P m" .
  from named_GetDigest [OF p(1)] a show g: "GetDigest f (T m) = Some d" by simp
  from p(1) have "T m \<noteq> []" by (auto simp: matcher_algorithms_def)
  with a g have "FingerprintMatcher_Match m f = DigestMatcher_Match m d"
    by (simp add: FingerprintMatcher_Match_def)
  with DigestMatcher_Match_hex [OF p(2,3), of d]
  show "FingerprintMatcher_Match m f
            = (if even (length (P m))
               then (\<exists>bs. DecodeString (P m) = Some bs \<and> 2 * length bs = length (P m)
                         \<and> length bs \<le> length d \<and> take (length bs) d = bs)
               else length (P m) \<le> 2 * length d
                    \<and> take (length (P m)) (EncodeToString d) = P m)"
    by simp
qed

text \<open>
  The pattern \<open>*:9f86\<close> parses and does not match a fingerprint whose populated
  SHA-256 digest starts with the bytes 9f 86, which the patterns \<open>sha256:9f86\<close> and
  \<open>sha256:9f8\<close> do match.
\<close>

theorem parse_matcher_witness:
  "NewDigestMatcher ''*:9f86'' = Inr \<lparr>P = ''9f86'', T = ''*'', B = Some [0x9f, 0x86]\<rparr>
   \<and> \<not> IsZero (SHA256 (new_Fingerprint\<lparr>SHA256 := [0x9f, 0x86] @ replicate 30 1\<rparr>))
   \<and> \<not> FingerprintMatcher_Match \<lparr>P = ''9f86'', T = ''*'', B = Some [0x9f, 0x86]\<rparr>
         (new_Fingerprint\<lparr>SHA256 := [0x9f, 0x86] @ replicate 30 1\<rparr>)
   \<and> NewDigestMatcher ''sha256:9f86''
       = Inr \<lparr>P = ''9f86'', T = ''sha256'', B = Some [0x9f, 0x86]\<rparr>
   \<and> FingerprintMatcher_Match \<lparr>P = ''9f86'', T = ''sha256'', B = Some [0x9f, 0x86]\<rparr>
         (new_Fingerprint\<lparr>SHA256 := [0x9f, 0x86] @ replicate 30 1\<rparr>)
   \<and> NewDigestMatcher ''sha256:9f8'' = Inr \<lparr>P = ''9f8'', T = ''sha256'', B = None\<rparr>
   \<and> FingerprintMatcher_Match \<lparr>P = ''9f8'', T = ''sha256'', B = None\<rparr>
         (new_Fingerprint\<lparr>SHA256 := [0x9f, 0x86] @ replicate 30 1\<rparr>)
   \<and> \<not> FingerprintMatcher_Match \<lparr>P = ''9f86'', T = ''sha256'', B = Some [0x9f, 0x86]\<rparr>
         (new_Fingerprint\<lparr>SHA256 := [0x9f, 0x87] @ replicate 30 1\<rparr>)"
proof -
  let ?f = "new_Fingerprint\<lparr>SHA256 := [0x9f, 0x86] @ replicate 30 1\<rparr>"
  let ?g = "new_Fingerprint\<lparr>SHA256 := [0x9f, 0x87] @ replicate 30 1\<rparr>"
  let ?w = "\<lparr>P = ''9f86'', T = ''*'', B = Some [0x9f, 0x86]\<rparr>"
  let ?m = "\<lparr>P = ''9f86'', T = ''sha256'', B = Some [0x9f, 0x86]\<rparr>"
  let ?o = "\<lparr>P = ''9f8'', T = ''sha256'', B = None\<rparr>"
  have w: "NewDigestMatcher ''*:9f86'' = Inr ?w"
    by (simp add: NewDigestMatcher_def FindStringSubmatch_def matcher_algorithms_def
        hex_digits_def is_hex_char_def fromHexChar_def)
  have m: "NewDigestMatcher ''sha256:9f86'' = Inr ?m"
    by (simp add: NewDigestMatcher_def FindStringSubmatch_def matcher_algorithms_def
        hex_digits_def is_hex_char_def fromHexChar_def)
  have o: "NewDigestMatcher ''sha256:9f8'' = Inr ?o"
    by (simp add: NewDigestMatcher_def FindStringSubmatch_def matcher_algorithms_def
        hex_digits_def is_hex_char_def fromHexChar_def)
  have d: "DecodeString ''9f86'' = Some [0x9f, 0x86]" by (simp add: fromHexChar_def)
  have e: "take 3 (EncodeToString ([0x9f, 0x86] @ replicate 30 1)) = ''9f8''"
    by (simp add: EncodeToString_def hex_byte_def hexdigit_def)
  note W = parse_matcher_accepts_and_wildcard [of "''*:9f86''", THEN conjunct2, THEN conjunct1,
      rule_format, of ?w ?f]
  note M = parse_matcher_accepts_and_wildcard [of "''sha256:9f86''", THEN conjunct2,
      THEN conjunct2, rule_format, of ?m _ ?f]
  note G = parse_matcher_accepts_and_wildcard [of "''sha256:9f86''", THEN conjunct2,
      THEN conjunct2, rule_format, of ?m _ ?g]
  note O = parse_matcher_accepts_and_wildcard [of "''sha256:9f8''", THEN conjunct2,
      THEN conjunct2, rule_format, of ?o _ ?f]
  from W w have 1: "\<not> FingerprintMatcher_Match ?w ?f" by simp
  from M [of "[0x9f, 0x86] @ replicate 30 1"] m d have 2: "FingerprintMatcher_Match ?m ?f"
    by simp
  from G [of "[0x9f, 0x87] @ replicate 30 1"] m d have 3: "\<not> FingerprintMatcher_Match ?m ?g"
    by simp
  from O [of "[0x9f, 0x86] @ replicate 30 1"] o e [unfolded numeral_3_eq_3] have 4: "FingerprintMatcher_Match ?o ?f"
    by simp
  from w m o 1 2 3 4 example_sha256_populated show ?thesis by simp
qed

section \<open>Output of \<^verbatim>\<open>hash all\<close>\<close>

text \<open>
  C8. For a fingerprinted file \<^verbatim>\<open>hash all\<close> prints nine lines, one per entry of
  \<^verbatim>\<open>knownAlgorithms\<close>. \<^verbatim>\<open>GetDigest\<close> has no case for \<open>md5\<close>, \<open>hwy64\<close>,
  \<open>hwy128\<close> and \<open>hwy256\<close> (it knows the Highway digests as \<open>hwy64bp\<close>, \<open>hwy128bp\<close>,
  \<open>hwy256bp\<close> only), so these four lines carry \<^verbatim>\<open>%!s(<nil>)\<close> in place of the
  digest, whatever the fingerprint holds; the other five carry the lowercase hex digest.
\<close>

theorem hashAllCmd_output:
  "hashAllCmd (\<lambda>p. Some fp) [path] =
     [''md5:%!s(<nil>)  '' @ path,
      ''sha1:'' @ Digest_String (SHA1 fp) @ ''  '' @ path,
      ''sha256:'' @ Digest_String (SHA256 fp) @ ''  '' @ path,
      ''sha384:'' @ Digest_String (SHA384 fp) @ ''  '' @ path,
      ''sha512:'' @ Digest_String (SHA512 fp) @ ''  '' @ path,
      ''git:'' @ Digest_String (GitSHA fp) @ ''  '' @ path,
      ''hwy64:%!s(<nil>)  '' @ path,
      ''hwy128:%!s(<nil>)  '' @ path,
      ''hwy256:%!s(<nil>)  '' @ path]"
  by (simp add: hashAllCmd_def knownAlgorithms_def hashAll_line_def GetDigest_def fmt_s_def)

section \<open>The git hasher and its declared length\<close>

lemma foldl_Write_written:
  "written (foldl Write h chunks) = written h @ concat chunks"
  by (induction chunks arbitrary: h) (auto simp: Write_def)

lemma foldl_Write_fields:
  "kind (foldl Write h chunks) = kind h \<and> gh_size (foldl Write h chunks) = gh_size h
   \<and> header (foldl Write h chunks) = header h"
  by (induction chunks arbitrary: h) (auto simp: Write_def)

lemma GitShaHasher_Done_chunks:
  "GitShaHasher_Done H (foldl Write (NewGitShaHasher t n) chunks)
     = (if int (length (concat chunks)) = n
        then Some (GitKind, sha1_of H (map of_char (t @ '' '' @ fmt_d n) @ [0] @ concat chunks))
        else None)"
  by (simp add: GitShaHasher_Done_def bytesHashed_def foldl_Write_written foldl_Write_fields
      hasher_result_def NewGitShaHasher_def)

lemma field_of_store:
  "field_of k (store_digest f (Some (k', x))) = (if k = k' then x else field_of k f)"
  by (cases k; cases k') (simp_all add: field_of_def store_digest_def)

lemma field_of_store_None: "field_of k (store_digest f None) = field_of k f"
  by (simp add: store_digest_def)

lemma store_digest_Size:
  "Size (store_digest f d) = Size f \<and> fp_cache (store_digest f d) = fp_cache f"
proof (cases d)
  case None
  then show ?thesis by (simp add: store_digest_def)
next
  case (Some p)
  obtain k x where "p = (k, x)" by (cases p)
  with Some show ?thesis by (cases k) (simp_all add: store_digest_def)
qed

lemma run_basic_field:
  "k \<noteq> GitKind \<Longrightarrow> field_of k' (run_hasher H bs c (newBasicHasher k) f)
     = (if k' = k \<and> c then hasher_result H (Write (newBasicHasher k) bs) else field_of k' f)"
  by (simp add: run_hasher_def Done_def newBasicHasher_def Write_def field_of_store)

lemma run_git_field:
  "field_of k' (run_hasher H bs c (NewGitShaHasher t n) f)
     = (if k' = GitKind \<and> c \<and> int (length bs) = n
        then hasher_result H (Write (NewGitShaHasher t n) bs) else field_of k' f)"
  by (simp add: run_hasher_def Done_def GitShaHasher_Done_def bytesHashed_def
      NewGitShaHasher_def Write_def field_of_store field_of_store_None)

lemma run_hasher_Size:
  "Size (run_hasher H bs c h f) = Size f \<and> fp_cache (run_hasher H bs c h f) = fp_cache f"
  by (simp add: run_hasher_def store_digest_Size)

lemma foldl_optional_hasher:
  "foldl store_digest f (map (Done H) (map (\<lambda>h. Write h bs) (if c then [h] else [])))
     = run_hasher H bs c h f"
  by (simp add: run_hasher_def)

lemma CalculateSums_no_error:
  assumes "stream_error data = None"
  shows "CalculateSums H f0 data size' =
     (foldl store_digest (if Size f0 = 0 \<and> size' \<noteq> 0 then f0\<lparr>Size := size'\<rparr> else f0)
        (map (Done H) (map (\<lambda>h. Write h (stream_bytes data))
           (missing_hashers (if Size f0 = 0 \<and> size' \<noteq> 0 then f0\<lparr>Size := size'\<rparr> else f0)))), None)"
proof (cases "missing_hashers (if Size f0 = 0 \<and> size' \<noteq> 0 then f0\<lparr>Size := size'\<rparr> else f0) = []")
  case True
  then show ?thesis by (simp add: CalculateSums_def Let_def)
next
  case False
  with assms show ?thesis by (simp add: CalculateSums_def Let_def)
qed

lemma run_missing_hashers:
  "foldl store_digest f (map (Done H) (map (\<lambda>h. Write h bs) (missing_hashers g))) =
     run_hasher H bs (IsZero (Hwy256 g)) (newBasicHasher Hwy256Kind)
      (run_hasher H bs (IsZero (Hwy128 g)) (newBasicHasher Hwy128Kind)
      (run_hasher H bs (IsZero (Hwy64 g)) (newBasicHasher Hwy64Kind)
      (run_hasher H bs (IsZero (SHA512 g)) (newBasicHasher SHA512Kind)
      (run_hasher H bs (IsZero (SHA384 g)) (newBasicHasher SHA384Kind)
      (run_hasher H bs (IsZero (SHA256 g)) (newBasicHasher SHA256Kind)
      (run_hasher H bs (IsZero (SHA1 g)) (newBasicHasher SHA1Kind)
      (run_hasher H bs (IsZero (MD5 g)) (newBasicHasher MD5Kind)
      (run_hasher H bs (IsZero (GitSHA g) \<and> Size g \<ge> 0) (NewGitShaHasher ''blob'' (Size g))
         f))))))))"
  by (simp only: missing_hashers_def map_append foldl_append foldl_optional_hasher)

text \<open>Every digest field after an error-free \<^verbatim>\<open>CalculateSums\<close>.\<close>

lemma CalculateSums_field:
  assumes "stream_error data = None"
  shows "field_of k (fst (CalculateSums H f0 data size')) =
     (if k = GitKind then
        (if IsZero (GitSHA f0) \<and> (if Size f0 = 0 \<and> size' \<noteq> 0 then size' else Size f0) \<ge> 0
            \<and> int (length (stream_bytes data))
                = (if Size f0 = 0 \<and> size' \<noteq> 0 then size' else Size f0)
         then hasher_result H (Write (NewGitShaHasher ''blob''
                (if Size f0 = 0 \<and> size' \<noteq> 0 then size' else Size f0)) (stream_bytes data))
         else GitSHA f0)
      else if IsZero (field_of k f0)
           then hasher_result H (Write (newBasicHasher k) (stream_bytes data))
      else field_of k f0)"
proof -
  let ?f = "if Size f0 = 0 \<and> size' \<noteq> 0 then f0\<lparr>Size := size'\<rparr> else f0"
  have s: "Size ?f = (if Size f0 = 0 \<and> size' \<noteq> 0 then size' else Size f0)" by simp
  have d: "field_of k' ?f = field_of k' f0" for k'
    by (cases k') (simp_all add: field_of_def)
  have d': "GitSHA ?f = GitSHA f0" "MD5 ?f = MD5 f0" "SHA1 ?f = SHA1 f0" "SHA256 ?f = SHA256 f0"
    "SHA384 ?f = SHA384 f0" "SHA512 ?f = SHA512 f0" "Hwy64 ?f = Hwy64 f0" "Hwy128 ?f = Hwy128 f0"
    "Hwy256 ?f = Hwy256 f0" by simp_all
  show ?thesis
    unfolding CalculateSums_no_error [OF assms] fst_conv run_missing_hashers
    apply (cases k)
    apply (simp_all only: run_basic_field run_git_field d d' s hash_kind.distinct simp_thms
        if_True if_False)
    apply (simp_all add: field_of_def)
    done
qed

lemma basic_result:
  "hasher_result H (Write (newBasicHasher k) bs) =
     (case k of GitKind \<Rightarrow> sha1_of H bs | MD5Kind \<Rightarrow> md5_of H bs | SHA1Kind \<Rightarrow> sha1_of H bs
      | SHA256Kind \<Rightarrow> sha256_of H bs | SHA384Kind \<Rightarrow> sha384_of H bs
      | SHA512Kind \<Rightarrow> sha512_of H bs | Hwy64Kind \<Rightarrow> hwy64_of H bs
      | Hwy128Kind \<Rightarrow> hwy128_of H bs | Hwy256Kind \<Rightarrow> hwy256_of H bs)"
  by (cases k) (simp_all add: hasher_result_def Write_def newBasicHasher_def)

lemma missing_hashers_git:
  "IsZero (GitSHA g) \<Longrightarrow> 0 \<le> Size g \<Longrightarrow> missing_hashers g \<noteq> []"
  by (simp add: missing_hashers_def)

lemma CalculateSums_error:
  assumes "stream_error data = Some err"
  shows "fst (CalculateSums H f0 data size')
           = (if Size f0 = 0 \<and> size' \<noteq> 0 then f0\<lparr>Size := size'\<rparr> else f0)"
    and "missing_hashers (if Size f0 = 0 \<and> size' \<noteq> 0 then f0\<lparr>Size := size'\<rparr> else f0) \<noteq> []
           \<Longrightarrow> snd (CalculateSums H f0 data size') = Some err"
proof -
  show "fst (CalculateSums H f0 data size')
           = (if Size f0 = 0 \<and> size' \<noteq> 0 then f0\<lparr>Size := size'\<rparr> else f0)"
  proof (cases "missing_hashers (if Size f0 = 0 \<and> size' \<noteq> 0 then f0\<lparr>Size := size'\<rparr> else f0) = []")
    case True
    then show ?thesis by (simp add: CalculateSums_def Let_def)
  next
    case False
    with assms show ?thesis by (simp add: CalculateSums_def Let_def)
  qed
  assume "missing_hashers (if Size f0 = 0 \<and> size' \<noteq> 0 then f0\<lparr>Size := size'\<rparr> else f0) \<noteq> []"
  with assms show "snd (CalculateSums H f0 data size') = Some err"
    by (simp add: CalculateSums_def Let_def)
qed

lemma CalculateSums_error_git:
  assumes "stream_error data = Some err" "IsZero (GitSHA f)"
    "0 \<le> (if Size f = 0 \<and> size' \<noteq> 0 then size' else Size f)"
  shows "snd (CalculateSums H f data size') = Some err"
proof (rule CalculateSums_error(2) [OF assms(1)])
  show "missing_hashers (if Size f = 0 \<and> size' \<noteq> 0 then f\<lparr>Size := size'\<rparr> else f) \<noteq> []"
  proof (cases "Size f = 0 \<and> size' \<noteq> 0")
    case True
    with assms(2,3) show ?thesis by (simp add: missing_hashers_git)
  next
    case False
    with assms(2,3) show ?thesis by (simp add: missing_hashers_git)
  qed
qed

text \<open>
  C6, as the code has it. A git hasher created for the declared length \<open>n\<close> and fed
  chunks of \<open>m\<close> bytes in total delivers a digest exactly when \<open>m = n\<close> (then the
  SHA-1 of the git blob header followed by the data), and nil otherwise. In
  \<^verbatim>\<open>CalculateSums\<close>, when the stream ends without error and its length differs from
  the declared length, the git-sha of the fingerprint stays zero and every other digest
  is kept: a digest that was missing is the hash of the data, a digest already present
  is unchanged. When the stream ends with a read error, no digest at all is stored: the
  fingerprint keeps the fields it had (but for the size taken from the argument), and
  the error is returned whenever a git hasher was created.
\<close>

theorem git_hasher_needs_declared_length:
  "((GitShaHasher_Done H (foldl Write (NewGitShaHasher ''blob'' n) chunks) \<noteq> None)
      = (int (length (concat chunks)) = n))
   \<and> (int (length (concat chunks)) = n \<longrightarrow>
        GitShaHasher_Done H (foldl Write (NewGitShaHasher ''blob'' n) chunks)
          = Some (GitKind, sha1_of H (map of_char (''blob '' @ fmt_d n) @ [0] @ concat chunks)))
   \<and> (stream_error data = None \<and> IsZero (GitSHA f)
        \<and> int (length (stream_bytes data)) \<noteq> (if Size f = 0 \<and> size' \<noteq> 0 then size' else Size f)
      \<longrightarrow> snd (CalculateSums H f data size') = None
        \<and> IsZero (GitSHA (fst (CalculateSums H f data size')))
        \<and> MD5 (fst (CalculateSums H f data size'))
            = (if IsZero (MD5 f) then md5_of H (stream_bytes data) else MD5 f)
        \<and> SHA1 (fst (CalculateSums H f data size'))
            = (if IsZero (SHA1 f) then sha1_of H (stream_bytes data) else SHA1 f)
        \<and> SHA256 (fst (CalculateSums H f data size'))
            = (if IsZero (SHA256 f) then sha256_of H (stream_bytes data) else SHA256 f)
        \<and> SHA384 (fst (CalculateSums H f data size'))
            = (if IsZero (SHA384 f) then sha384_of H (stream_bytes data) else SHA384 f)
        \<and> SHA512 (fst (CalculateSums H f data size'))
            = (if IsZero (SHA512 f) then sha512_of H (stream_bytes data) else SHA512 f)
        \<and> Hwy64 (fst (CalculateSums H f data size'))
            = (if IsZero (Hwy64 f) then hwy64_of H (stream_bytes data) else Hwy64 f)
        \<and> Hwy128 (fst (CalculateSums H f data size'))
            = (if IsZero (Hwy128 f) then hwy128_of H (stream_bytes data) else Hwy128 f)
        \<and> Hwy256 (fst (CalculateSums H f data size'))
            = (if IsZero (Hwy256 f) then hwy256_of H (stream_bytes data) else Hwy256 f))
   \<and> (stream_error data = Some err \<longrightarrow>
        fst (CalculateSums H f data size')
          = (if Size f = 0 \<and> size' \<noteq> 0 then f\<lparr>Size := size'\<rparr> else f)
        \<and> (IsZero (GitSHA f) \<and> 0 \<le> (if Size f = 0 \<and> size' \<noteq> 0 then size' else Size f) \<longrightarrow>
             snd (CalculateSums H f data size') = Some err))"
proof (intro conjI impI)
  show "(GitShaHasher_Done H (foldl Write (NewGitShaHasher ''blob'' n) chunks) \<noteq> None)
      = (int (length (concat chunks)) = n)"
    by (simp add: GitShaHasher_Done_chunks)
next
  assume "int (length (concat chunks)) = n"
  then show "GitShaHasher_Done H (foldl Write (NewGitShaHasher ''blob'' n) chunks)
          = Some (GitKind, sha1_of H (map of_char (''blob '' @ fmt_d n) @ [0] @ concat chunks))"
    by (simp add: GitShaHasher_Done_chunks)
next
  assume a: "stream_error data = None \<and> IsZero (GitSHA f)
        \<and> int (length (stream_bytes data)) \<noteq> (if Size f = 0 \<and> size' \<noteq> 0 then size' else Size f)"
  then have e: "stream_error data = None" by simp
  note F = CalculateSums_field [OF e, of _ H f size', unfolded basic_result]
  show "snd (CalculateSums H f data size') = None"
    by (simp add: CalculateSums_no_error [OF e])
  show "IsZero (GitSHA (fst (CalculateSums H f data size')))"
    using F [of GitKind] a by (simp add: field_of_def)
  show "MD5 (fst (CalculateSums H f data size'))
            = (if IsZero (MD5 f) then md5_of H (stream_bytes data) else MD5 f)"
    using F [of MD5Kind] by (simp add: field_of_def)
  show "SHA1 (fst (CalculateSums H f data size'))
            = (if IsZero (SHA1 f) then sha1_of H (stream_bytes data) else SHA1 f)"
    using F [of SHA1Kind] by (simp add: field_of_def)
  show "SHA256 (fst (CalculateSums H f data size'))
            = (if IsZero (SHA256 f) then sha256_of H (stream_bytes data) else SHA256 f)"
    using F [of SHA256Kind] by (simp add: field_of_def)
  show "SHA384 (fst (CalculateSums H f data size'))
            = (if IsZero (SHA384 f) then sha384_of H (stream_bytes data) else SHA384 f)"
    using F [of SHA384Kind] by (simp add: field_of_def)
  show "SHA512 (fst (CalculateSums H f data size'))
            = (if IsZero (SHA512 f) then sha512_of H (stream_bytes data) else SHA512 f)"
    using F [of SHA512Kind] by (simp add: field_of_def)
  show "Hwy64 (fst (CalculateSums H f data size'))
            = (if IsZero (Hwy64 f) then hwy64_of H (stream_bytes data) else Hwy64 f)"
    using F [of Hwy64Kind] by (simp add: field_of_def)
  show "Hwy128 (fst (CalculateSums H f data size'))
            = (if IsZero (Hwy128 f) then hwy128_of H (stream_bytes data) else Hwy128 f)"
    using F [of Hwy128Kind] by (simp add: field_of_def)
  show "Hwy256 (fst (CalculateSums H f data size'))
            = (if IsZero (Hwy256 f) then hwy256_of H (stream_bytes data) else Hwy256 f)"
    using F [of Hwy256Kind] by (simp add: field_of_def)
next
  assume e: "stream_error data = Some err"
  from CalculateSums_error(1) [OF e]
  show "fst (CalculateSums H f data size')
          = (if Size f = 0 \<and> size' \<noteq> 0 then f\<lparr>Size := size'\<rparr> else f)" .
  assume "IsZero (GitSHA f) \<and> 0 \<le> (if Size f = 0 \<and> size' \<noteq> 0 then size' else Size f)"
  with CalculateSums_error_git [OF e, of f size' H]
  show "snd (CalculateSums H f data size') = Some err" by simp
qed

theorem git_hasher_needs_declared_length_witness:
  "GitShaHasher_Done constant_hashes (foldl Write (NewGitShaHasher ''blob'' 3) [[1, 2], [3]])
     = Some (GitKind, replicate 20 2)
   \<and> GitShaHasher_Done constant_hashes (foldl Write (NewGitShaHasher ''blob'' 5) [[1, 2], [3]])
     = None
   \<and> snd (CalculateSums constant_hashes new_Fingerprint
            \<lparr>stream_bytes = [1, 2, 3], stream_error = None\<rparr> 5) = None
   \<and> IsZero (GitSHA (fst (CalculateSums constant_hashes new_Fingerprint
            \<lparr>stream_bytes = [1, 2, 3], stream_error = None\<rparr> 5)))
   \<and> MD5 (fst (CalculateSums constant_hashes new_Fingerprint
            \<lparr>stream_bytes = [1, 2, 3], stream_error = None\<rparr> 5)) = replicate 16 1
   \<and> SHA512 (fst (CalculateSums constant_hashes new_Fingerprint
            \<lparr>stream_bytes = [1, 2, 3], stream_error = None\<rparr> 5)) = replicate 64 5
   \<and> CalculateSums constant_hashes new_Fingerprint
        \<lparr>stream_bytes = [1, 2, 3], stream_error = Some (Error ''unexpected EOF'')\<rparr> 3
       = (new_Fingerprint\<lparr>Size := 3\<rparr>, Some (Error ''unexpected EOF''))"
proof -
  let ?data = "\<lparr>stream_bytes = [1, 2, 3], stream_error = None\<rparr> :: InputStream"
  have z: "IsZero (GitSHA new_Fingerprint)" "IsZero (MD5 new_Fingerprint)"
    "IsZero (SHA512 new_Fingerprint)"
    by (simp_all add: new_Fingerprint_def IsZero_zero_digest)
  have s: "Size new_Fingerprint = 0" by (simp add: new_Fingerprint_def)
  note T3 = git_hasher_needs_declared_length [of constant_hashes 3 "[[1, 2], [3]]"
      ?data new_Fingerprint 5 "Error ''unexpected EOF''"]
  note T5 = git_hasher_needs_declared_length [of constant_hashes 5 "[[1, 2], [3]]"
      ?data new_Fingerprint 5 "Error ''unexpected EOF''"]
  let ?bad = "\<lparr>stream_bytes = [1, 2, 3], stream_error = Some (Error ''unexpected EOF'')\<rparr>
      :: InputStream"
  note E = git_hasher_needs_declared_length [of constant_hashes 3 "[[1, 2], [3]]"
      ?bad new_Fingerprint 3 "Error ''unexpected EOF''"]
  have a: "GitShaHasher_Done constant_hashes (foldl Write (NewGitShaHasher ''blob'' 3) [[1, 2], [3]])
     = Some (GitKind, replicate 20 2)"
    using T3 [THEN conjunct2, THEN conjunct1] by (simp add: constant_hashes_def)
  have b: "GitShaHasher_Done constant_hashes (foldl Write (NewGitShaHasher ''blob'' 5) [[1, 2], [3]])
     = None"
    using T5 [THEN conjunct1] by (simp del: not_None_eq)
  have h: "stream_error ?data = None \<and> IsZero (GitSHA new_Fingerprint)
        \<and> int (length (stream_bytes ?data))
            \<noteq> (if Size new_Fingerprint = 0 \<and> (5::int) \<noteq> 0 then 5 else Size new_Fingerprint)"
    using z s by simp
  note C = T3 [THEN conjunct2, THEN conjunct2, THEN conjunct1, THEN mp, OF h]
  from C z have c: "snd (CalculateSums constant_hashes new_Fingerprint ?data 5) = None"
    "IsZero (GitSHA (fst (CalculateSums constant_hashes new_Fingerprint ?data 5)))"
    "MD5 (fst (CalculateSums constant_hashes new_Fingerprint ?data 5)) = replicate 16 1"
    "SHA512 (fst (CalculateSums constant_hashes new_Fingerprint ?data 5)) = replicate 64 5"
    by (simp_all add: constant_hashes_def)
  have "stream_error ?bad = Some (Error ''unexpected EOF'')" by simp
  note D = E [THEN conjunct2, THEN conjunct2, THEN conjunct2, THEN mp, OF this]
  from D z s have d: "CalculateSums constant_hashes new_Fingerprint ?bad 3
       = (new_Fingerprint\<lparr>Size := 3\<rparr>, Some (Error ''unexpected EOF''))"
    by (simp add: prod_eq_iff)
  from a b c d show ?thesis by simp
qed

text \<open>
  The claim as stated fails on a stream that ends with a read error: three bytes were
  read of a blob declared as five bytes long (a truncated archive entry), the git hasher
  delivers nil, and the MD5 digest of the bytes read is not kept either: the fingerprint
  has no digest at all and the error is returned.
\<close>

theorem git_hasher_error_stream_counterexample:
  "int (length (stream_bytes \<lparr>stream_bytes = [1, 2, 3], stream_error = Some (Error ''unexpected EOF'')\<rparr>))
     \<noteq> 5
   \<and> GitShaHasher_Done constant_hashes (foldl Write (NewGitShaHasher ''blob'' 5) [[1, 2, 3]]) = None
   \<and> snd (CalculateSums constant_hashes new_Fingerprint
            \<lparr>stream_bytes = [1, 2, 3], stream_error = Some (Error ''unexpected EOF'')\<rparr> 5)
       = Some (Error ''unexpected EOF'')
   \<and> IsZero (MD5 (fst (CalculateSums constant_hashes new_Fingerprint
            \<lparr>stream_bytes = [1, 2, 3], stream_error = Some (Error ''unexpected EOF'')\<rparr> 5)))
   \<and> md5_of constant_hashes [1, 2, 3] = replicate 16 1
   \<and> \<not> IsZero (md5_of constant_hashes [1, 2, 3])"
proof -
  let ?data = "\<lparr>stream_bytes = [1, 2, 3], stream_error = Some (Error ''unexpected EOF'')\<rparr>"
  have e: "stream_error ?data = Some (Error ''unexpected EOF'')" by simp
  have z: "IsZero (GitSHA new_Fingerprint)" "IsZero (MD5 new_Fingerprint)"
    by (simp_all add: new_Fingerprint_def IsZero_zero_digest)
  have s: "Size new_Fingerprint = 0" by (simp add: new_Fingerprint_def)
  have 1: "GitShaHasher_Done constant_hashes (foldl Write (NewGitShaHasher ''blob'' 5) [[1, 2, 3]])
      = None"
    by (simp only: GitShaHasher_Done_chunks) simp
  have 2: "snd (CalculateSums constant_hashes new_Fingerprint ?data 5) = Some (Error ''unexpected EOF'')"
    using z s by (intro CalculateSums_error_git [OF e]) simp_all
  have 3: "IsZero (MD5 (fst (CalculateSums constant_hashes new_Fingerprint ?data 5)))"
    using z s by (simp add: CalculateSums_error(1) [OF e])
  have 4: "md5_of constant_hashes [1, 2, 3] = replicate 16 1" by (simp add: constant_hashes_def)
  have 5: "\<not> IsZero (replicate 16 (1::byte))"
    by (simp add: IsZero_replicate)
  from 1 2 3 4 5 show ?thesis by simp
qed



section \<open>Recursion depth of the archive scan\<close>

lemma scan_independent_of_depth:
  "map forget_depth (fingerprintArchiveEntry e depth limit)
     = map forget_depth (fingerprintArchiveEntry e depth' limit')"
proof (induction e depth limit arbitrary: depth' limit' rule: fingerprintArchiveEntry.induct)
  case (1 name body depth limit)
  have rec: "IsScannableArchive name \<or> IsScannablePackage name \<Longrightarrow>
      map (\<lambda>e. map forget_depth (fingerprintArchiveEntry e (depth + 1) limit)) body
      = map (\<lambda>e. map forget_depth (fingerprintArchiveEntry e (depth' + 1) limit')) body"
  proof (rule map_cong [OF refl])
    fix e assume a: "IsScannableArchive name \<or> IsScannablePackage name" and e: "e \<in> set body"
    show "map forget_depth (fingerprintArchiveEntry e (depth + 1) limit)
        = map forget_depth (fingerprintArchiveEntry e (depth' + 1) limit')"
    proof (cases "IsScannableArchive name")
      case True
      from "1.IH"(1) [OF True e] show ?thesis .
    next
      case False
      with a have "IsScannablePackage name" by simp
      from "1.IH"(2) [OF False this e] show ?thesis .
    qed
  qed
  show ?case
  proof (cases "IsScannableArchive name \<or> IsScannablePackage name")
    case True
    from rec [OF True] have "concat (map (\<lambda>e. map forget_depth
          (fingerprintArchiveEntry e (depth + 1) limit)) body)
        = concat (map (\<lambda>e. map forget_depth
          (fingerprintArchiveEntry e (depth' + 1) limit')) body)"
      by (rule arg_cong [where f = concat])
    then show ?thesis by (simp add: map_concat comp_def)
  next
    case False
    then show ?thesis by simp
  qed
qed

lemma nested_zips_scan:
  "fingerprintArchiveEntry (nested_zips n) depth limit
     = map (\<lambda>i. ScanArchive ''inner.zip'' (depth + 1 + int i) limit) [0..<n]
       @ [FingerprintBlob ''c.txt'']"
proof (induction n arbitrary: depth)
  case 0
  show ?case
    by (simp add: IsScannableArchive_def IsScannablePackage_def archiveScanners_def
        pkgScanners_def HasSuffix_def)
next
  case (Suc n)
  have z: "IsScannableArchive ''inner.zip''"
    by (simp add: IsScannableArchive_def archiveScanners_def HasSuffix_def)
  have "map (\<lambda>i. ScanArchive ''inner.zip'' (depth + 1 + int i) limit) [0..<Suc n]
      = ScanArchive ''inner.zip'' (depth + 1) limit
        # map (\<lambda>i. ScanArchive ''inner.zip'' (depth + 1 + 1 + int i) limit) [0..<n]"
    by (simp add: upt_rec [of 0 "Suc n"] map_Suc_upt [symmetric] del: upt_Suc)
  with Suc [of "depth + 1"] z show ?case by simp
qed

lemma blob_not_scannable:
  "FingerprintBlob name \<in> set (fingerprintArchiveEntry e depth limit) \<Longrightarrow>
     \<not> IsScannableArchive name \<and> \<not> IsScannablePackage name"
proof (induction e depth limit rule: fingerprintArchiveEntry.induct)
  case (1 n body depth limit)
  show ?case
  proof (cases "IsScannableArchive n")
    case True
    with "1.prems" obtain e where "e \<in> set body"
      "FingerprintBlob name \<in> set (fingerprintArchiveEntry e (depth + 1) limit)"
      by auto
    with "1.IH"(1) [OF True] show ?thesis by blast
  next
    case False
    show ?thesis
    proof (cases "IsScannablePackage n")
      case True
      with False "1.prems" obtain e where "e \<in> set body"
        "FingerprintBlob name \<in> set (fingerprintArchiveEntry e (depth + 1) limit)"
        by auto
      with "1.IH"(2) [OF False True] show ?thesis by blast
    next
      case n: False
      with False "1.prems" show ?thesis by simp
    qed
  qed
qed

lemma IdentifyArchiveContents_nil_stat:
  "IdentifyArchiveContents s fileName size' None body depth limit
     = Inr (if IsScannableArchive fileName
            then ScanArchive fileName depth limit
                   # concat (map (\<lambda>e. fingerprintArchiveEntry e depth limit) body)
            else [])"
  by (simp add: IdentifyArchiveContents_def)

lemma deepScanWorker_not_cached:
  "GetStatFingerprint s (FileInfo_key stat) = None \<Longrightarrow>
     deepScanWorker s path stat body
       = Inr (if IsScannableArchive path
              then ScanArchive path 0 10 # concat (map (\<lambda>e. fingerprintArchiveEntry e 0 10) body)
              else [])"
  by (simp add: deepScanWorker_def IdentifyArchiveContents_def)

text \<open>
  C3. Which entries are recursed into does not depend on the depth or on the limit:
  \<^verbatim>\<open>fingerprintArchiveEntry\<close> yields the same events, but for the depths and limits
  they carry, for every depth and limit it is called with, and an entry whose name is a
  scannable archive or package is never fingerprinted as a plain blob, whatever the depth
  is. A chain of \<open>k\<close> zip files nested in one another is scanned down to the text file
  in its middle, the zip scanner running at the depths \<open>depth + 1\<close> to \<open>depth + k\<close>;
  so \<^verbatim>\<open>deepScanWorker\<close> (depth 0, limit 10), on an archive that the stat cache does
  not know and that holds such a chain, runs the scanner at every depth from 1 to \<open>k\<close>,
  beyond the limit when \<open>k\<close> is more than 10.
\<close>

theorem archive_scan_never_compares_limit:
  "map forget_depth (fingerprintArchiveEntry e depth limit)
     = map forget_depth (fingerprintArchiveEntry e depth' limit')
   \<and> (FingerprintBlob name \<in> set (fingerprintArchiveEntry e depth limit) \<longrightarrow>
        \<not> IsScannableArchive name \<and> \<not> IsScannablePackage name)
   \<and> fingerprintArchiveEntry (nested_zips k) depth limit
       = map (\<lambda>i. ScanArchive ''inner.zip'' (depth + 1 + int i) limit) [0..<k]
         @ [FingerprintBlob ''c.txt'']
   \<and> (GetStatFingerprint s (FileInfo_key stat) = None \<longrightarrow>
        deepScanWorker s ''outer.tgz'' stat [nested_zips k]
          = Inr (ScanArchive ''outer.tgz'' 0 10
                 # map (\<lambda>i. ScanArchive ''inner.zip'' (1 + int i) 10) [0..<k]
                 @ [FingerprintBlob ''c.txt'']))"
proof (intro conjI impI)
  show "map forget_depth (fingerprintArchiveEntry e depth limit)
     = map forget_depth (fingerprintArchiveEntry e depth' limit')"
    by (rule scan_independent_of_depth)
next
  assume "FingerprintBlob name \<in> set (fingerprintArchiveEntry e depth limit)"
  from blob_not_scannable [OF this]
  show "\<not> IsScannableArchive name" "\<not> IsScannablePackage name" by simp_all
next
  show "fingerprintArchiveEntry (nested_zips k) depth limit
       = map (\<lambda>i. ScanArchive ''inner.zip'' (depth + 1 + int i) limit) [0..<k]
         @ [FingerprintBlob ''c.txt'']"
    by (rule nested_zips_scan)
next
  assume a: "GetStatFingerprint s (FileInfo_key stat) = None"
  have z: "IsScannableArchive ''outer.tgz''"
    by (simp add: IsScannableArchive_def archiveScanners_def HasSuffix_def)
  from deepScanWorker_not_cached [OF a, of "''outer.tgz''" "[nested_zips k]"] z
  show "deepScanWorker s ''outer.tgz'' stat [nested_zips k]
          = Inr (ScanArchive ''outer.tgz'' 0 10
                 # map (\<lambda>i. ScanArchive ''inner.zip'' (1 + int i) 10) [0..<k]
                 @ [FingerprintBlob ''c.txt''])"
    by (simp only: nested_zips_scan list.map concat.simps append_Nil2 if_True) simp
qed

text \<open>
  At depth 10 with limit 10, an entry named \<open>inner.zip\<close> is recursed into (with depth
  11) and not fingerprinted as a plain blob; below an archive of the inventory, a chain
  of twelve nested zip files is scanned to its end, the scanner running at the depths
  11 and 12.
\<close>

theorem archive_scan_never_compares_limit_witness:
  "IsScannableArchive ''inner.zip''
   \<and> fingerprintArchiveEntry (Entry ''inner.zip'' [Entry ''c.txt'' []]) 10 10
       = [ScanArchive ''inner.zip'' 11 10, FingerprintBlob ''c.txt'']
   \<and> FingerprintBlob ''inner.zip''
        \<notin> set (fingerprintArchiveEntry (Entry ''inner.zip'' [Entry ''c.txt'' []]) 10 10)
   \<and> (\<exists>events.
         deepScanWorker (blank_heap, example_store) ''outer.tgz''
           \<lparr>FileInfo_Size = 4096, FileInfo_key = ''4096,1,1''\<rparr> [nested_zips 12] = Inr events
         \<and> length events = 14
         \<and> events ! 11 = ScanArchive ''inner.zip'' 11 10
         \<and> events ! 12 = ScanArchive ''inner.zip'' 12 10
         \<and> events ! 13 = FingerprintBlob ''c.txt'')"
proof -
  note T = archive_scan_never_compares_limit
  have z: "IsScannableArchive ''inner.zip''"
    by (simp add: IsScannableArchive_def archiveScanners_def HasSuffix_def)
  have n: "nested_zips 1 = Entry ''inner.zip'' [Entry ''c.txt'' []]" by simp
  from T [where k = 1 and depth = 10 and limit = 10, THEN conjunct2, THEN conjunct2, THEN conjunct1]
  have 1: "fingerprintArchiveEntry (Entry ''inner.zip'' [Entry ''c.txt'' []]) 10 10
       = [ScanArchive ''inner.zip'' 11 10, FingerprintBlob ''c.txt'']"
    unfolding n by simp
  from T [where e = "Entry ''inner.zip'' [Entry ''c.txt'' []]" and depth = 10 and limit = 10
        and name = "''inner.zip''",
      THEN conjunct2, THEN conjunct1] z
  have 2: "FingerprintBlob ''inner.zip''
        \<notin> set (fingerprintArchiveEntry (Entry ''inner.zip'' [Entry ''c.txt'' []]) 10 10)"
    by blast
  let ?stat = "\<lparr>FileInfo_Size = 4096, FileInfo_key = ''4096,1,1''\<rparr>"
  have "GetStatFingerprint (blank_heap, example_store) (FileInfo_key ?stat) = None"
    by (simp add: GetStatFingerprint_def example_store_def newInMemoryCache_def)
  from T [where k = 12 and s = "(blank_heap, example_store)" and stat = ?stat,
      THEN conjunct2, THEN conjunct2, THEN conjunct2, THEN mp, OF this]
  have 3: "deepScanWorker (blank_heap, example_store) ''outer.tgz'' ?stat [nested_zips 12]
          = Inr (ScanArchive ''outer.tgz'' 0 10
                 # map (\<lambda>i. ScanArchive ''inner.zip'' (1 + int i) 10) [0..<12]
                 @ [FingerprintBlob ''c.txt''])" .
  have 4: "length (ScanArchive ''outer.tgz'' 0 10
                 # map (\<lambda>i. ScanArchive ''inner.zip'' (1 + int i) 10) [0..<12]
                 @ [FingerprintBlob ''c.txt'']) = 14"
    by simp
  have 5: "(ScanArchive ''outer.tgz'' 0 10
                 # map (\<lambda>i. ScanArchive ''inner.zip'' (1 + int i) 10) [0..<12]
                 @ [FingerprintBlob ''c.txt'']) ! 11 = ScanArchive ''inner.zip'' 11 10"
    "(ScanArchive ''outer.tgz'' 0 10
                 # map (\<lambda>i. ScanArchive ''inner.zip'' (1 + int i) 10) [0..<12]
                 @ [FingerprintBlob ''c.txt'']) ! 12 = ScanArchive ''inner.zip'' 12 10"
    "(ScanArchive ''outer.tgz'' 0 10
                 # map (\<lambda>i. ScanArchive ''inner.zip'' (1 + int i) 10) [0..<12]
                 @ [FingerprintBlob ''c.txt'']) ! 13 = FingerprintBlob ''c.txt''"
    by (simp_all add: nth_append nth_Cons' del: upt_Suc)
  from z 1 2 3 4 5 show ?thesis by simp
qed

section \<open>Merging and interning fingerprints\<close>

lemma if_pair: "(if c then (a, x) else (b, y)) = (if c then a else b, if c then x else y)"
  by simp

lemma if_update:
  "(if c then r\<lparr>Size := s\<rparr> else r) = r\<lparr>Size := (if c then s else Size r)\<rparr>"
  "(if c then r\<lparr>GitSHA := d\<rparr> else r) = r\<lparr>GitSHA := (if c then d else GitSHA r)\<rparr>"
  "(if c then r\<lparr>MD5 := d\<rparr> else r) = r\<lparr>MD5 := (if c then d else MD5 r)\<rparr>"
  "(if c then r\<lparr>SHA1 := d\<rparr> else r) = r\<lparr>SHA1 := (if c then d else SHA1 r)\<rparr>"
  "(if c then r\<lparr>SHA256 := d\<rparr> else r) = r\<lparr>SHA256 := (if c then d else SHA256 r)\<rparr>"
  "(if c then r\<lparr>SHA384 := d\<rparr> else r) = r\<lparr>SHA384 := (if c then d else SHA384 r)\<rparr>"
  "(if c then r\<lparr>SHA512 := d\<rparr> else r) = r\<lparr>SHA512 := (if c then d else SHA512 r)\<rparr>"
  "(if c then r\<lparr>Hwy64 := d\<rparr> else r) = r\<lparr>Hwy64 := (if c then d else Hwy64 r)\<rparr>"
  "(if c then r\<lparr>Hwy128 := d\<rparr> else r) = r\<lparr>Hwy128 := (if c then d else Hwy128 r)\<rparr>"
  "(if c then r\<lparr>Hwy256 := d\<rparr> else r) = r\<lparr>Hwy256 := (if c then d else Hwy256 r)\<rparr>"
  by (cases c; simp)+

lemma UpdateWith_fst:
  "fst (UpdateWith f g) =
     f\<lparr>Size := (if Size f = 0 then Size g else Size f),
       GitSHA := (if IsZero (GitSHA f) then GitSHA g else GitSHA f),
       MD5 := (if IsZero (MD5 f) then MD5 g else MD5 f),
       SHA1 := (if IsZero (SHA1 f) then SHA1 g else SHA1 f),
       SHA256 := (if IsZero (SHA256 f) then SHA256 g else SHA256 f),
       SHA384 := (if IsZero (SHA384 f) then SHA384 g else SHA384 f),
       SHA512 := (if IsZero (SHA512 f) then SHA512 g else SHA512 f),
       Hwy64 := (if IsZero (Hwy64 f) then Hwy64 g else Hwy64 f),
       Hwy128 := (if IsZero (Hwy128 f) then Hwy128 g else Hwy128 f),
       Hwy256 := (if IsZero (Hwy256 f) then Hwy256 g else Hwy256 f)\<rparr>"
proof -
  have e: "(if c \<and> x \<noteq> y then y else x) = (if c then y else (x::'a))" for c x y
    by auto
  have e0: "(if Size f = 0 \<and> Size g \<noteq> 0 then Size g else Size f) = (if Size f = 0 then Size g else Size f)"
    by auto
  show ?thesis
    by (simp add: UpdateWith_def if_pair if_update Let_def e e0 split del: if_split cong: if_cong)
qed

lemma UpdateWith_cache: "fp_cache (fst (UpdateWith f g)) = fp_cache f"
  by (simp add: UpdateWith_fst)

lemma UpdateWith_GitSHA:
  "GitSHA (fst (UpdateWith f g)) = (if IsZero (GitSHA f) then GitSHA g else GitSHA f)"
  by (simp add: UpdateWith_fst)

lemma GetFingerprintByGitSHA_Some:
  "GetFingerprintByGitSHA v g = Inr (Some e) \<Longrightarrow>
     \<exists>i. gitSHAIndex v g = Some i \<and> i < length (Fingerprints v) \<and> e = Fingerprints v ! i"
  by (auto simp: GetFingerprintByGitSHA_def index_def split: if_splits option.splits)

lemma find_Some_mem: "find Q xs = Some x \<Longrightarrow> x \<in> set xs \<and> Q x"
  by (auto simp: find_Some_iff)

lemma PutFingerprint_cases:
  assumes "PutFingerprint s p = Inr (r, s')"
  obtains (cached) a where "p = Some a" "IsCached (fp_cache (fingerprint_at (fst s) a))"
      "r = Some a" "s' = s"
    | (merged) a e where "p = Some a" "\<not> IsCached (fp_cache (fingerprint_at (fst s) a))"
      "r = Some e" "e \<in> set (Fingerprints (snd s))" "s' = merged_state s e a"
    | (inserted) a where "p = Some a" "\<not> IsCached (fp_cache (fingerprint_at (fst s) a))"
      "r = Some a" "s' = inserted_state s a"
proof (cases p)
  case None
  with assms show ?thesis by (simp add: PutFingerprint_def)
next
  case (Some a)
  show ?thesis
  proof (cases "IsCached (fp_cache (fingerprint_at (fst s) a))")
    case True
    with assms Some have "r = Some a" "s' = s" by (auto simp: PutFingerprint_def Let_def)
    with cached Some True show ?thesis by blast
  next
    case False
    from assms Some False obtain byGit where
      g: "GetFingerprintByGitSHA (snd s) (GitSHA (fingerprint_at (fst s) a)) = Inr byGit"
      by (auto simp: PutFingerprint_def Let_def split: sum.splits)
    define existing where "existing = (case byGit of Some e \<Rightarrow> Some e
        | None \<Rightarrow> find (\<lambda>e. Fingerprint_Is (e = a) (fingerprint_at (fst s) e)
                             (fingerprint_at (fst s) a)) (Fingerprints (snd s)))"
    show ?thesis
    proof (cases existing)
      case None
      with assms Some False g have "r = Some a" "s' = inserted_state s a"
        by (auto simp: PutFingerprint_def Let_def existing_def inserted_state_def
            split: option.splits)
      with inserted Some False show ?thesis by blast
    next
      case (Some e)
      have mem: "e \<in> set (Fingerprints (snd s))"
      proof (cases byGit)
        case None
        with Some show ?thesis by (auto simp: existing_def dest: find_Some_mem)
      next
        case (Some e')
        with \<open>existing = Some e\<close> have "e' = e" by (simp add: existing_def)
        with Some g GetFingerprintByGitSHA_Some show ?thesis by fastforce
      qed
      from assms \<open>p = Some a\<close> False g Some have "r = Some e" "s' = merged_state s e a"
        by (auto simp: PutFingerprint_def Let_def existing_def merged_state_def
            split: option.splits)
      with merged \<open>p = Some a\<close> False mem show ?thesis by blast
    qed
  qed
qed

lemma Filter_Contains_Add:
  "Filter_Contains (Filter_Add f g) g"
  "Filter_Contains f g' \<Longrightarrow> Filter_Contains (Filter_Add f g) g'"
  by (auto simp: Filter_Contains_def Filter_Add_def list_all_iff)

lemma stored_fp_cached:
  "fps_inv s \<Longrightarrow> e \<in> set (Fingerprints (snd s)) \<Longrightarrow> IsCached (fp_cache (fingerprint_at (fst s) e))"
  by (auto simp: fps_inv_def in_set_conv_nth IsCached_def)

lemma merged_fps_inv:
  assumes "fps_inv s" "e \<in> set (Fingerprints (snd s))"
  shows "fps_inv (merged_state s e a)"
  using assms
  by (auto simp: fps_inv_def merged_state_def UpdateWith_cache UpdateWith_GitSHA)

lemma inserted_fps_inv:
  assumes "fps_inv s" "\<not> IsCached (fp_cache (fingerprint_at (fst s) a))"
  shows "fps_inv (inserted_state s a)"
proof -
  from assms have n: "a \<notin> set (Fingerprints (snd s))" using stored_fp_cached by blast
  then have ne: "i < length (Fingerprints (snd s)) \<Longrightarrow> Fingerprints (snd s) ! i \<noteq> a" for i
    by (metis nth_mem)
  from assms(1) ne show ?thesis
    by (auto simp: fps_inv_def inserted_state_def nth_append SetCacheID_def Filter_Contains_Add
        less_Suc_eq)
qed

lemma PutFingerprint_fps_inv:
  assumes "fps_inv s" "PutFingerprint s p = Inr (r, s')"
  shows "fps_inv s'"
  using assms(2)
proof (cases rule: PutFingerprint_cases)
  case (cached a)
  with assms show ?thesis by simp
next
  case (merged a e)
  with assms merged_fps_inv show ?thesis by simp
next
  case (inserted a)
  with assms inserted_fps_inv show ?thesis by simp
qed

section \<open>Interning files\<close>

lemma find_existing_file_mem:
  "find_existing_file h path fa es = Inr (Some e) \<Longrightarrow> e \<in> set es"
  by (induction es) (auto split: if_splits option.splits)

lemma PutFile_cases:
  assumes "PutFile s p = Inr (r, s')"
  obtains (cached) a fa where "p = Some a" "File_Fingerprint (file_at (fst s) a) = Some fa"
      "IsCached (file_cache (file_at (fst s) a))" "r = Some a" "s' = s"
    | (existing) a fa e where "p = Some a" "File_Fingerprint (file_at (fst s) a) = Some fa"
      "\<not> IsCached (file_cache (file_at (fst s) a))" "e \<in> set (Files (snd s))"
      "r = Some e" "s' = s"
    | (new) a fa fp s1 where "p = Some a" "File_Fingerprint (file_at (fst s) a) = Some fa"
      "\<not> IsCached (file_cache (file_at (fst s) a))"
      "PutFingerprint s (Some fa) = Inr (fp, s1)" "r = Some a"
      "s' = file_inserted_state s1 a fp"
proof (cases p)
  case None
  with assms show ?thesis by (simp add: PutFile_def)
next
  case (Some a)
  with assms obtain fa where fa: "File_Fingerprint (file_at (fst s) a) = Some fa"
    by (auto simp: PutFile_def Let_def split: option.splits)
  show ?thesis
  proof (cases "IsCached (file_cache (file_at (fst s) a))")
    case True
    with assms Some fa have "r = Some a" "s' = s" by (auto simp: PutFile_def Let_def)
    with cached Some fa True show ?thesis by blast
  next
    case False
    with assms Some fa obtain ex where
      ex: "find_existing_file (fst s) (Path (file_at (fst s) a)) fa (Files (snd s)) = Inr ex"
      by (auto simp: PutFile_def Let_def split: sum.splits)
    show ?thesis
    proof (cases ex)
      case (Some e)
      with ex have "e \<in> set (Files (snd s))" by (auto dest: find_existing_file_mem)
      moreover from assms \<open>p = Some a\<close> fa False ex Some have "r = Some e" "s' = s"
        by (auto simp: PutFile_def Let_def)
      ultimately show ?thesis using existing \<open>p = Some a\<close> fa False by blast
    next
      case None
      with assms \<open>p = Some a\<close> fa False ex obtain fp s1 where
        "PutFingerprint s (Some fa) = Inr (fp, s1)" "r = Some a" "s' = file_inserted_state s1 a fp"
        by (auto simp: PutFile_def Let_def file_inserted_state_def split: sum.splits prod.splits)
      with new \<open>p = Some a\<close> fa False show ?thesis by blast
    qed
  qed
qed

text \<open>Frame: PutFingerprint touches only the fingerprint heap, list, index and filter.\<close>

lemma PutFingerprint_frame:
  assumes "PutFingerprint s p = Inr (r, s')"
  shows "file_at (fst s') = file_at (fst s) \<and> archive_at (fst s') = archive_at (fst s)
    \<and> repo_at (fst s') = repo_at (fst s) \<and> Files (snd s') = Files (snd s)
    \<and> ArchiveFiles (snd s') = ArchiveFiles (snd s)
    \<and> GitRepoSources (snd s') = GitRepoSources (snd s) \<and> statCache (snd s') = statCache (snd s)
    \<and> next_fingerprint (fst s') = next_fingerprint (fst s) \<and> next_file (fst s') = next_file (fst s)
    \<and> next_archive (fst s') = next_archive (fst s) \<and> next_repo (fst s') = next_repo (fst s)"
  using assms
  by (cases rule: PutFingerprint_cases) (simp_all add: merged_state_def inserted_state_def)

lemma PutFingerprint_keeps:
  assumes "PutFingerprint s p = Inr (r, s')"
  shows "files_inv s' = files_inv s" "archives_inv s' = archives_inv s" "repos_inv s' = repos_inv s"
  using PutFingerprint_frame [OF assms]
  by (simp_all add: files_inv_def archives_inv_def repos_inv_def)

lemma stored_file_cached:
  "files_inv s \<Longrightarrow> e \<in> set (Files (snd s)) \<Longrightarrow> IsCached (file_cache (file_at (fst s) e))"
  by (auto simp: files_inv_def in_set_conv_nth IsCached_def)

lemma file_inserted_files_inv:
  assumes "files_inv s" "\<not> IsCached (file_cache (file_at (fst s) a))"
  shows "files_inv (file_inserted_state s a fp)"
proof -
  from assms have n: "a \<notin> set (Files (snd s))" using stored_file_cached by blast
  then have ne: "i < length (Files (snd s)) \<Longrightarrow> Files (snd s) ! i \<noteq> a" for i
    by (metis nth_mem)
  from assms(1) ne show ?thesis
    by (auto simp: files_inv_def file_inserted_state_def nth_append SetCacheID_def less_Suc_eq)
qed

lemma file_inserted_keeps:
  "fps_inv (file_inserted_state s a fp) = fps_inv s"
  "archives_inv (file_inserted_state s a fp) = archives_inv s"
  "repos_inv (file_inserted_state s a fp) = repos_inv s"
  by (simp_all add: fps_inv_def archives_inv_def repos_inv_def file_inserted_state_def)

lemma PutFile_store_inv:
  assumes "store_inv s" "PutFile s p = Inr (r, s')"
  shows "store_inv s'"
  using assms(2)
proof (cases rule: PutFile_cases)
  case (cached a fa)
  with assms show ?thesis by simp
next
  case (existing a fa e)
  with assms show ?thesis by simp
next
  case (new a fa fp s1)
  from assms(1) PutFingerprint_fps_inv [OF _ new(4)] PutFingerprint_keeps [OF new(4)]
  have s1: "store_inv s1" by (simp add: store_inv_def)
  from PutFingerprint_frame [OF new(4)] new(3)
  have "\<not> IsCached (file_cache (file_at (fst s1) a))" by simp
  with s1 file_inserted_files_inv [of s1 a fp] new(6) show ?thesis
    by (simp add: store_inv_def file_inserted_keeps)
qed

lemma PutFiles_store_inv:
  "store_inv s \<Longrightarrow> PutFiles s ps = Inr (rs, s') \<Longrightarrow> store_inv s'"
proof (induction ps arbitrary: s rs)
  case Nil
  then show ?case by simp
next
  case (Cons p ps)
  from Cons.prems(2) obtain q s1 qs where
    a: "PutFile s p = Inr (q, s1)" and b: "PutFiles s1 ps = Inr (qs, s')"
    by (auto split: sum.splits prod.splits)
  from Cons.IH [OF PutFile_store_inv [OF Cons.prems(1) a] b] show ?case .
qed

section \<open>Interning repositories and archives; sequences of puts\<close>

lemma PutFile_frame:
  assumes "PutFile s p = Inr (r, s')"
  shows "archive_at (fst s') = archive_at (fst s) \<and> repo_at (fst s') = repo_at (fst s)
    \<and> ArchiveFiles (snd s') = ArchiveFiles (snd s)
    \<and> GitRepoSources (snd s') = GitRepoSources (snd s) \<and> statCache (snd s') = statCache (snd s)
    \<and> next_fingerprint (fst s') = next_fingerprint (fst s) \<and> next_file (fst s') = next_file (fst s)
    \<and> next_archive (fst s') = next_archive (fst s) \<and> next_repo (fst s') = next_repo (fst s)"
  using assms
proof (cases rule: PutFile_cases)
  case (new a fa fp s1)
  with PutFingerprint_frame [OF new(4)] show ?thesis by (simp add: file_inserted_state_def)
qed simp_all

lemma PutFiles_frame:
  "PutFiles s ps = Inr (rs, s') \<Longrightarrow>
     archive_at (fst s') = archive_at (fst s) \<and> repo_at (fst s') = repo_at (fst s)
    \<and> ArchiveFiles (snd s') = ArchiveFiles (snd s)
    \<and> GitRepoSources (snd s') = GitRepoSources (snd s) \<and> statCache (snd s') = statCache (snd s)
    \<and> next_fingerprint (fst s') = next_fingerprint (fst s) \<and> next_file (fst s') = next_file (fst s)
    \<and> next_archive (fst s') = next_archive (fst s) \<and> next_repo (fst s') = next_repo (fst s)"
proof (induction ps arbitrary: s rs)
  case Nil
  then show ?case by simp
next
  case (Cons p ps)
  from Cons.prems obtain q s1 qs where
    a: "PutFile s p = Inr (q, s1)" and b: "PutFiles s1 ps = Inr (qs, s')"
    by (auto split: sum.splits prod.splits)
  from Cons.IH [OF b] PutFile_frame [OF a] show ?case by simp
qed

lemma PutGitSource_cases:
  assumes "PutGitSource s p = Inr (r, s')"
  obtains (found) a e where "p = Some a" "e \<in> set (GitRepoSources (snd s))" "r = Some e" "s' = s"
    | (new) a rs s1 where "p = Some a" "a \<notin> set (GitRepoSources (snd s))"
      "PutFiles s (Repo_Files (repo_at (fst s) a)) = Inr (rs, s1)" "r = Some a"
      "s' = repo_inserted_state s1 a rs"
proof (cases p)
  case None
  with assms show ?thesis by (simp add: PutGitSource_def)
next
  case (Some a)
  let ?f = "find (\<lambda>e. URN (repo_at (fst s) e) = URN (repo_at (fst s) a)) (GitRepoSources (snd s))"
  show ?thesis
  proof (cases ?f)
    case (Some e)
    then have "e \<in> set (GitRepoSources (snd s))" by (auto dest: find_Some_mem)
    moreover from assms \<open>p = Some a\<close> Some have "r = Some e" "s' = s"
      by (auto simp: PutGitSource_def Let_def)
    ultimately show ?thesis using found \<open>p = Some a\<close> by blast
  next
    case None
    then have n: "a \<notin> set (GitRepoSources (snd s))" by (auto simp: find_None_iff)
    from assms \<open>p = Some a\<close> None obtain rs s1 where
      "PutFiles s (Repo_Files (repo_at (fst s) a)) = Inr (rs, s1)" "r = Some a"
      "s' = repo_inserted_state s1 a rs"
      by (auto simp: PutGitSource_def Let_def repo_inserted_state_def split: sum.splits prod.splits)
    with new \<open>p = Some a\<close> n show ?thesis by blast
  qed
qed

lemma PutArchiveFile_cases:
  assumes "PutArchiveFile s p = Inr (r, s')"
  obtains (found) a fl s1 e where "p = Some a"
      "PutFile s (Archive_File (archive_at (fst s) a)) = Inr (fl, s1)"
      "e \<in> set (ArchiveFiles (snd s1))" "r = Some e" "s' = archive_file_set s1 a fl"
    | (new) a fl s1 rs s3 where "p = Some a"
      "PutFile s (Archive_File (archive_at (fst s) a)) = Inr (fl, s1)"
      "a \<notin> set (ArchiveFiles (snd s1))"
      "PutFiles (archive_file_set s1 a fl) (Entries (archive_at (fst s1) a)) = Inr (rs, s3)"
      "r = Some a" "s' = archive_inserted_state s3 a rs"
proof (cases p)
  case None
  with assms show ?thesis by (simp add: PutArchiveFile_def)
next
  case (Some a)
  with assms obtain fl s1 where
    pf: "PutFile s (Archive_File (archive_at (fst s) a)) = Inr (fl, s1)"
    by (auto simp: PutArchiveFile_def split: sum.splits prod.splits)
  let ?s2 = "archive_file_set s1 a fl"
  let ?f = "find (\<lambda>e. Archive_File (archive_at (fst ?s2) e) = fl) (ArchiveFiles (snd s1))"
  have fa: "Archive_File (archive_at (fst ?s2) a) = fl" by (simp add: archive_file_set_def)
  have en: "Entries (archive_at (fst ?s2) a) = Entries (archive_at (fst s1) a)"
    by (simp add: archive_file_set_def)
  show ?thesis
  proof (cases ?f)
    case (Some e)
    then have "e \<in> set (ArchiveFiles (snd s1))" by (auto dest: find_Some_mem)
    moreover from assms \<open>p = Some a\<close> pf Some have "r = Some e" "s' = ?s2"
      by (auto simp: PutArchiveFile_def Let_def archive_file_set_def)
    ultimately show ?thesis using found \<open>p = Some a\<close> pf by blast
  next
    case None
    with fa have n: "a \<notin> set (ArchiveFiles (snd s1))" by (auto simp: find_None_iff)
    from assms \<open>p = Some a\<close> pf None obtain rs s3 where
      "PutFiles ?s2 (Entries (archive_at (fst ?s2) a)) = Inr (rs, s3)" "r = Some a"
      "s' = archive_inserted_state s3 a rs"
      by (auto simp: PutArchiveFile_def Let_def archive_file_set_def archive_inserted_state_def
          split: sum.splits prod.splits)
    with new \<open>p = Some a\<close> pf n en show ?thesis by metis
  qed
qed

lemma repo_inserted_store_inv:
  assumes "store_inv s" "a \<notin> set (GitRepoSources (snd s))"
  shows "store_inv (repo_inserted_state s a rs)"
proof -
  from assms(2) have ne: "i < length (GitRepoSources (snd s)) \<Longrightarrow> GitRepoSources (snd s) ! i \<noteq> a" for i
    by (metis nth_mem)
  from assms(1) ne show ?thesis
    by (auto simp: store_inv_def fps_inv_def files_inv_def archives_inv_def repos_inv_def
        repo_inserted_state_def nth_append SetCacheID_def less_Suc_eq)
qed

lemma archive_file_set_store_inv:
  "store_inv (archive_file_set s a fl) = store_inv s"
  by (auto simp: store_inv_def fps_inv_def files_inv_def archives_inv_def repos_inv_def
      archive_file_set_def)

lemma archive_inserted_store_inv:
  assumes "store_inv s" "a \<notin> set (ArchiveFiles (snd s))"
  shows "store_inv (archive_inserted_state s a rs)"
proof -
  from assms(2) have ne: "i < length (ArchiveFiles (snd s)) \<Longrightarrow> ArchiveFiles (snd s) ! i \<noteq> a" for i
    by (metis nth_mem)
  from assms(1) ne show ?thesis
    by (auto simp: store_inv_def fps_inv_def files_inv_def archives_inv_def repos_inv_def
        archive_inserted_state_def nth_append SetCacheID_def less_Suc_eq)
qed

lemma PutFingerprint_store_inv:
  assumes "store_inv s" "PutFingerprint s p = Inr (r, s')"
  shows "store_inv s'"
  using assms PutFingerprint_fps_inv [OF _ assms(2)] PutFingerprint_keeps [OF assms(2)]
  by (simp add: store_inv_def)

lemma PutGitSource_store_inv:
  assumes "store_inv s" "PutGitSource s p = Inr (r, s')"
  shows "store_inv s'"
  using assms(2)
proof (cases rule: PutGitSource_cases)
  case (found a e)
  with assms show ?thesis by simp
next
  case (new a rs s1)
  from PutFiles_frame [OF new(3)] new(2) have "a \<notin> set (GitRepoSources (snd s1))" by simp
  with PutFiles_store_inv [OF assms(1) new(3)] new(5) repo_inserted_store_inv show ?thesis
    by simp
qed

lemma PutArchiveFile_store_inv:
  assumes "store_inv s" "PutArchiveFile s p = Inr (r, s')"
  shows "store_inv s'"
  using assms(2)
proof (cases rule: PutArchiveFile_cases)
  case (found a fl s1 e)
  with PutFile_store_inv [OF assms(1) found(2)] show ?thesis
    by (simp add: archive_file_set_store_inv)
next
  case (new a fl s1 rs s3)
  from PutFile_store_inv [OF assms(1) new(2)]
  have "store_inv (archive_file_set s1 a fl)" by (simp add: archive_file_set_store_inv)
  from PutFiles_store_inv [OF this new(4)] have s3: "store_inv s3" .
  from PutFiles_frame [OF new(4)] new(3) have "a \<notin> set (ArchiveFiles (snd s3))"
    by (simp add: archive_file_set_def)
  with s3 new(6) archive_inserted_store_inv show ?thesis by simp
qed

lemma PutStatFingerprint_store_inv:
  "store_inv (PutStatFingerprint s key a) = store_inv s"
  by (simp add: store_inv_def fps_inv_def files_inv_def archives_inv_def repos_inv_def
      PutStatFingerprint_def)

lemma apply_put_store_inv:
  assumes "store_inv s" "apply_put s op' = Inr s'"
  shows "store_inv s'"
proof (cases op')
  case (PutFingerprintOp p)
  with assms(2) obtain r where "PutFingerprint s p = Inr (r, s')"
    by (auto simp: apply_put_def split: sum.splits)
  with assms(1) PutFingerprint_store_inv show ?thesis by blast
next
  case (PutFileOp p)
  with assms(2) obtain r where "PutFile s p = Inr (r, s')"
    by (auto simp: apply_put_def split: sum.splits)
  with assms(1) PutFile_store_inv show ?thesis by blast
next
  case (PutGitSourceOp p)
  with assms(2) obtain r where "PutGitSource s p = Inr (r, s')"
    by (auto simp: apply_put_def split: sum.splits)
  with assms(1) PutGitSource_store_inv show ?thesis by blast
next
  case (PutArchiveFileOp p)
  with assms(2) obtain r where "PutArchiveFile s p = Inr (r, s')"
    by (auto simp: apply_put_def split: sum.splits)
  with assms(1) PutArchiveFile_store_inv show ?thesis by blast
next
  case (PutStatFingerprintOp key a)
  with assms show ?thesis by (auto simp: apply_put_def PutStatFingerprint_store_inv)
qed

lemma run_puts_store_inv:
  "store_inv s \<Longrightarrow> run_puts s ops = Inr s' \<Longrightarrow> store_inv s'"
proof (induction ops arbitrary: s)
  case Nil
  then show ?case by simp
next
  case (Cons op' ops)
  from Cons.prems(2) obtain s1 where a: "apply_put s op' = Inr s1" and b: "run_puts s1 ops = Inr s'"
    by (auto split: sum.splits)
  from Cons.IH [OF apply_put_store_inv [OF Cons.prems(1) a] b] show ?case .
qed

lemma new_store_inv: "store_inv (h, newInMemoryCache keys)"
  by (simp add: store_inv_def fps_inv_def files_inv_def archives_inv_def repos_inv_def
      newInMemoryCache_def)

section \<open>Verification\<close>

lemma verify_ids_None:
  "(verify_ids c d xs i = None) = (\<forall>j < length xs. c (xs ! j) = i + j)"
proof (induction xs arbitrary: i)
  case Nil
  show ?case by simp
next
  case (Cons x xs)
  have "(\<forall>j < Suc (length xs). c ((x # xs) ! j) = i + j)
      = (c x = i \<and> (\<forall>j < length xs. c (xs ! j) = Suc i + j))"
    by (auto simp: less_Suc_eq_0_disj)
  with Cons show ?case by auto
qed

lemma first_error_None:
  "((case a of Some e \<Rightarrow> Some e | None \<Rightarrow>
       (case b of Some e \<Rightarrow> Some e | None \<Rightarrow>
          (case c of Some e \<Rightarrow> Some e | None \<Rightarrow> d))) = None)
     = (a = None \<and> b = None \<and> c = None \<and> d = None)"
  by (cases a; cases b; cases c; simp)

lemma Verify_iff: "(Verify s = None) = ids_consistent s"
  unfolding Verify_def Let_def first_error_None verify_ids_None ids_consistent_def
  by simp

lemma store_inv_ids_consistent: "store_inv s \<Longrightarrow> ids_consistent s"
  by (simp add: store_inv_def fps_inv_def files_inv_def archives_inv_def repos_inv_def
      ids_consistent_def CacheID_def)

text \<open>
  C5. \<^verbatim>\<open>Verify\<close> succeeds exactly when, in each of the four slices (fingerprints,
  files, archives, repos), the object at index \<open>i\<close> has the cache id \<open>i\<close>. Every
  sequence of put operations that runs to its end on a new store, in any heap, leaves
  the ids consistent, so \<^verbatim>\<open>Verify\<close> succeeds. When \<^verbatim>\<open>Verify\<close> fails,
  \<^verbatim>\<open>PersistRememberedObjects\<close> leaves both files as they were.
\<close>

theorem verify_holds_after_puts:
  "((Verify s = None) = ids_consistent s)
   \<and> (run_puts (h, newInMemoryCache keys) ops = Inr s' \<longrightarrow> ids_consistent s' \<and> Verify s' = None)
   \<and> (Verify s \<noteq> None \<longrightarrow> PersistRememberedObjects s create_gob create_yaml disk = Inr disk)"
proof (intro conjI impI)
  show "(Verify s = None) = ids_consistent s" by (rule Verify_iff)
next
  assume "run_puts (h, newInMemoryCache keys) ops = Inr s'"
  from run_puts_store_inv [OF new_store_inv this] have "store_inv s'" .
  then show "ids_consistent s'" by (rule store_inv_ids_consistent)
  then show "Verify s' = None" by (simp add: Verify_iff)
next
  assume "Verify s \<noteq> None"
  then show "PersistRememberedObjects s create_gob create_yaml disk = Inr disk"
    by (auto simp: PersistRememberedObjects_def)
qed

text \<open>The definitions that evaluate the puts on the example heap.\<close>

lemmas eval_defs = apply_put_def PutArchiveFile_def PutFile_def PutFingerprint_def
  GetFingerprintByGitSHA_def Filter_Contains_def Filter_Add_def NewOptimal_def newInMemoryCache_def
  example_heap_def example_store_def blank_heap_def new_Fingerprint_def zero_digest_def Fingerprint_Is_def Is_values_def
  Let_def index_def IsCached_def no_cache_id_def SetCacheID_def length_key_def IsZero_replicate
  CacheID_def

lemma example_run:
  "\<exists>s. run_puts (example_heap, example_store) [PutArchiveFileOp (Some 0)] = Inr s
       \<and> Fingerprints (snd s) = [1, 0] \<and> Files (snd s) = [1, 0] \<and> ArchiveFiles (snd s) = [0]"
  by (simp add: eval_defs)

lemma example_bad:
  "Verify (blank_heap, example_store\<lparr>Fingerprints := [5, 6]\<rparr>)
     = Some (Error ''Incorrect key on fingerprint. Expected 0 to be 1'')"
  by code_simp

theorem verify_holds_after_puts_witness:
  "(\<exists>s. run_puts (example_heap, example_store) [PutArchiveFileOp (Some 0)] = Inr s
       \<and> ArchiveFiles (snd s) = [0] \<and> ids_consistent s \<and> Verify s = None)
   \<and> Verify (blank_heap, example_store\<lparr>Fingerprints := [5, 6]\<rparr>) \<noteq> None
   \<and> \<not> ids_consistent (blank_heap, example_store\<lparr>Fingerprints := [5, 6]\<rparr>)
   \<and> PersistRememberedObjects (blank_heap, example_store\<lparr>Fingerprints := [5, 6]\<rparr>) True True
        \<lparr>fingerprint_gob = None, fingerprint_yaml = None\<rparr>
       = Inr \<lparr>fingerprint_gob = None, fingerprint_yaml = None\<rparr>"
proof -
  from example_run obtain s where
    s: "run_puts (example_heap, newInMemoryCache length_key) [PutArchiveFileOp (Some 0)] = Inr s"
    "ArchiveFiles (snd s) = [0]"
    by (auto simp: example_store_def)
  note T1 = verify_holds_after_puts [of _ example_heap length_key "[PutArchiveFileOp (Some 0)]" s]
  from T1 s have a: "ids_consistent s \<and> Verify s = None" by blast
  let ?bad = "(blank_heap, example_store\<lparr>Fingerprints := [5, 6]\<rparr>)"
  note T2 = verify_holds_after_puts [of ?bad h keys ops s' True True
     "\<lparr>fingerprint_gob = None, fingerprint_yaml = None\<rparr>"]
  have b: "Verify ?bad \<noteq> None" by (simp add: example_bad)
  with T2 have c: "\<not> ids_consistent ?bad"
    "PersistRememberedObjects ?bad True True \<lparr>fingerprint_gob = None, fingerprint_yaml = None\<rparr>
       = Inr \<lparr>fingerprint_gob = None, fingerprint_yaml = None\<rparr>"
    by blast+
  from s a b c show ?thesis by (auto simp: example_store_def)
qed

section \<open>Queries by fingerprint\<close>

lemma GetFingerprintByGitSHA_not_indexed:
  "gitSHAIndex v g = None \<Longrightarrow> GetFingerprintByGitSHA v g = Inr None"
  by (simp add: GetFingerprintByGitSHA_def)

text \<open>
  C10. For a fingerprint whose git-sha is not a key of the git-sha index,
  \<^verbatim>\<open>FindFilesWithFingerprint\<close> returns nil and
  \<^verbatim>\<open>FindArchiveFilesContainingFingerprint\<close> returns the empty list, whatever other
  digests the fingerprint shares with stored files: both resolve the fingerprint through
  the git-sha index only.
\<close>

theorem find_by_unindexed_gitsha:
  assumes "gitSHAIndex (snd s) (GitSHA (fingerprint_at (fst s) a)) = None"
  shows "FindFilesWithFingerprint s (Some a) = Inr None
         \<and> FindArchiveFilesContainingFingerprint s (Some a) = Inr []"
  using assms
  by (simp add: FindArchiveFilesContainingFingerprint_def FindFilesWithFingerprint_def
      GetFingerprintByGitSHA_not_indexed)

lemma example_run_index:
  "\<exists>s. run_puts (example_heap, example_store) [PutArchiveFileOp (Some 0)] = Inr s
       \<and> Files (snd s) = [1, 0] \<and> ArchiveFiles (snd s) = [0]
       \<and> Entries (archive_at (fst s) 0) = [Some 0]
       \<and> File_Fingerprint (file_at (fst s) 0) = Some 0
       \<and> MD5 (fingerprint_at (fst s) 0) = replicate 16 9
       \<and> MD5 (fingerprint_at (fst s) 2) = replicate 16 9
       \<and> GitSHA (fingerprint_at (fst s) 2) = replicate 20 0
       \<and> gitSHAIndex (snd s) (replicate 20 0) = None
       \<and> FindFilesWithFingerprint s (Some 0) = Inr (Some [0])
       \<and> FindArchiveFilesContainingFingerprint s (Some 0) = Inr [0]"
  by (simp add: eval_defs FindArchiveFilesContainingFingerprint_def FindFilesWithFingerprint_def)

theorem find_by_unindexed_gitsha_witness:
  "\<exists>s. run_puts (example_heap, example_store) [PutArchiveFileOp (Some 0)] = Inr s
       \<and> MD5 (fingerprint_at (fst s) 2) = MD5 (fingerprint_at (fst s) 0)
       \<and> \<not> IsZero (MD5 (fingerprint_at (fst s) 2))
       \<and> FindFilesWithFingerprint s (Some 0) = Inr (Some [0])
       \<and> FindArchiveFilesContainingFingerprint s (Some 0) = Inr [0]
       \<and> FindFilesWithFingerprint s (Some 2) = Inr None
       \<and> FindArchiveFilesContainingFingerprint s (Some 2) = Inr []"
proof -
  from example_run_index obtain s where
    s: "run_puts (example_heap, example_store) [PutArchiveFileOp (Some 0)] = Inr s"
      "MD5 (fingerprint_at (fst s) 0) = replicate 16 9"
      "MD5 (fingerprint_at (fst s) 2) = replicate 16 9"
      "GitSHA (fingerprint_at (fst s) 2) = replicate 20 0"
      "gitSHAIndex (snd s) (replicate 20 0) = None"
      "FindFilesWithFingerprint s (Some 0) = Inr (Some [0])"
      "FindArchiveFilesContainingFingerprint s (Some 0) = Inr [0]"
    by blast
  from s have "gitSHAIndex (snd s) (GitSHA (fingerprint_at (fst s) 2)) = None" by simp
  from find_by_unindexed_gitsha [OF this] s show ?thesis
    by (auto simp: IsZero_replicate)
qed

section \<open>The check for nested wrapping of the passthrough tee\<close>

lemma PutFingerprint_index_range:
  assumes "\<forall>g i. gitSHAIndex (snd s) g = Some i \<longrightarrow> i < length (Fingerprints (snd s))"
  shows "\<exists>r s'. PutFingerprint s (Some a) = Inr (Some r, s')
           \<and> (\<forall>g i. gitSHAIndex (snd s') g = Some i \<longrightarrow> i < length (Fingerprints (snd s')))"
proof -
  obtain h v where s: "s = (h, v)" by (cases s)
  show ?thesis
  proof (cases "gitSHAIndex v (GitSHA (fingerprint_at h a))")
    case None
    with assms s show ?thesis
      by (auto simp: PutFingerprint_def GetFingerprintByGitSHA_def Let_def less_Suc_eq
          split: option.splits)
  next
    case (Some i)
    with assms s have "i < length (Fingerprints v)" by auto
    with Some assms s show ?thesis
      by (auto simp: PutFingerprint_def GetFingerprintByGitSHA_def Let_def index_def less_Suc_eq
          split: option.splits)
  qed
qed

lemma PutFingerprint_no_nested_panic:
  "PutFingerprint s p \<noteq> Inl (Panic ''nested passthrough hasher!'')"
  by (auto simp: PutFingerprint_def GetFingerprintByGitSHA_def Let_def index_def
      nil_dereference_def split: option.splits sum.splits)

lemma CalculateSums_pipe:
  "snd (CalculateSums H f (pipe_stream data) n) = None"
  by (simp add: CalculateSums_no_error pipe_stream_def)

lemma tee_wraps:
  assumes "\<forall>g i. gitSHAIndex (snd s) g = Some i \<longrightarrow> i < length (Fingerprints (snd s))"
    and "reader_type r = OtherReader \<or> reader_type r = PassthroughHasherPointer"
  shows "\<exists>fp s'. fingerprintPassthrough H s r n None
            = Inr (\<lparr>reader_type = PassthroughHasherPointer,
                     reader_stream = pipe_stream (reader_stream r)\<rparr>, Some fp, s')
           \<and> (\<forall>g i. gitSHAIndex (snd s') g = Some i \<longrightarrow> i < length (Fingerprints (snd s')))"
proof -
  obtain f e where c: "CalculateSums H new_Fingerprint (pipe_stream (reader_stream r)) n = (f, e)"
    by (cases "CalculateSums H new_Fingerprint (pipe_stream (reader_stream r)) n")
  with CalculateSums_pipe [of H new_Fingerprint "reader_stream r" n] have e: "e = None" by simp
  obtain a h' where al: "alloc_fingerprint (fst s) f = (a, h')"
    by (cases "alloc_fingerprint (fst s) f")
  from assms(1) have "\<forall>g i. gitSHAIndex (snd (h', snd s)) g = Some i
      \<longrightarrow> i < length (Fingerprints (snd (h', snd s)))" by simp
  from PutFingerprint_index_range [OF this, of a] obtain p s' where
    p: "PutFingerprint (h', snd s) (Some a) = Inr (Some p, s')"
      "\<forall>g i. gitSHAIndex (snd s') g = Some i \<longrightarrow> i < length (Fingerprints (snd s'))"
    by blast
  from assms(2) c e al p(1) have
    "fingerprintPassthrough H s r n None
            = Inr (\<lparr>reader_type = PassthroughHasherPointer,
                     reader_stream = pipe_stream (reader_stream r)\<rparr>, Some p, s')"
    by (auto simp: fingerprintPassthrough_def)
  with p(2) show ?thesis by blast
qed

lemma tee_result_type:
  assumes "fingerprintPassthrough H s r n stat = Inr (r', fp, s')"
  shows "reader_type r' = OtherReader \<or> reader_type r' = PassthroughHasherPointer"
proof -
  from assms have t: "reader_type r \<noteq> PassthroughHasherValue" "reader_type r \<noteq> NilReader"
    by (auto simp: fingerprintPassthrough_def split: if_splits)
  then have "reader_type r = OtherReader \<or> reader_type r = PassthroughHasherPointer"
    by (cases "reader_type r") simp_all
  with assms t show ?thesis
    by (auto simp: fingerprintPassthrough_def Let_def
        split: if_splits option.splits prod.splits sum.splits)
qed

lemma tee_no_nested_panic:
  assumes "reader_type r \<noteq> PassthroughHasherValue"
  shows "fingerprintPassthrough H s r n stat \<noteq> Inl (Panic ''nested passthrough hasher!'')"
proof -
  obtain f e where c: "CalculateSums H new_Fingerprint (pipe_stream (reader_stream r)) n = (f, e)"
    by (cases "CalculateSums H new_Fingerprint (pipe_stream (reader_stream r)) n")
  with CalculateSums_pipe [of H new_Fingerprint "reader_stream r" n] have e: "e = None" by simp
  obtain a h' where al: "alloc_fingerprint (fst s) f = (a, h')"
    by (cases "alloc_fingerprint (fst s) f")
  from assms c e al PutFingerprint_no_nested_panic [of "(h', snd s)" "Some a"] show ?thesis
    by (auto simp: fingerprintPassthrough_def split: option.splits sum.splits)
qed

text \<open>
  C7. A reader that \<^verbatim>\<open>fingerprintPassthrough\<close> returned is never of the type
  \<^verbatim>\<open>passthroughHasher\<close> that its check for nested wrapping asserts (the reader it
  creates is a \<^verbatim>\<open>*passthroughHasher\<close>), so a second call on that reader never
  panics with \<^verbatim>\<open>nested passthrough hasher!\<close>. On every store reached by put
  operations from a new store, the call on an ordinary reader with a nil \<^verbatim>\<open>stat\<close>
  returns a wrapper, and the call on that wrapper returns a second wrapper around it,
  which delivers the bytes of the first reader.
\<close>

theorem tee_does_not_detect_its_own_reader:
  "(fingerprintPassthrough H s r n stat = Inr (r', fp, s') \<longrightarrow>
      reader_type r' \<noteq> PassthroughHasherValue
      \<and> fingerprintPassthrough H s2 r' n2 stat2 \<noteq> Inl (Panic ''nested passthrough hasher!''))
   \<and> (run_puts (h, newInMemoryCache keys) ops = Inr s \<and> reader_type r = OtherReader \<longrightarrow>
       (\<exists>r1 fp1 s1 r2 fp2 s2.
          fingerprintPassthrough H s r n None = Inr (r1, fp1, s1)
          \<and> reader_type r1 = PassthroughHasherPointer
          \<and> fingerprintPassthrough H s1 r1 n2 None = Inr (r2, fp2, s2)
          \<and> reader_type r2 = PassthroughHasherPointer
          \<and> stream_bytes (reader_stream r2) = stream_bytes (reader_stream r)))"
proof (intro conjI impI)
  assume a: "fingerprintPassthrough H s r n stat = Inr (r', fp, s')"
  from tee_result_type [OF a] show t: "reader_type r' \<noteq> PassthroughHasherValue" by auto
  from tee_no_nested_panic [OF t]
  show "fingerprintPassthrough H s2 r' n2 stat2 \<noteq> Inl (Panic ''nested passthrough hasher!'')" .
next
  assume a: "run_puts (h, newInMemoryCache keys) ops = Inr s \<and> reader_type r = OtherReader"
  from a run_puts_store_inv [OF new_store_inv] have "store_inv s" by blast
  then have i: "\<forall>g i. gitSHAIndex (snd s) g = Some i \<longrightarrow> i < length (Fingerprints (snd s))"
    by (simp add: store_inv_def fps_inv_def)
  from a tee_wraps [OF i, of r H n] obtain fp1 s1 where
    1: "fingerprintPassthrough H s r n None
          = Inr (\<lparr>reader_type = PassthroughHasherPointer,
                   reader_stream = pipe_stream (reader_stream r)\<rparr>, Some fp1, s1)"
      "\<forall>g i. gitSHAIndex (snd s1) g = Some i \<longrightarrow> i < length (Fingerprints (snd s1))"
    by blast
  let ?r1 = "\<lparr>reader_type = PassthroughHasherPointer,
               reader_stream = pipe_stream (reader_stream r)\<rparr>"
  from tee_wraps [OF 1(2), of ?r1 H n2] obtain fp2 s2 where
    2: "fingerprintPassthrough H s1 ?r1 n2 None
          = Inr (\<lparr>reader_type = PassthroughHasherPointer,
                   reader_stream = pipe_stream (reader_stream ?r1)\<rparr>, Some fp2, s2)"
    by auto
  from 1(1) 2 show "\<exists>r1 fp1 s1 r2 fp2 s2.
          fingerprintPassthrough H s r n None = Inr (r1, fp1, s1)
          \<and> reader_type r1 = PassthroughHasherPointer
          \<and> fingerprintPassthrough H s1 r1 n2 None = Inr (r2, fp2, s2)
          \<and> reader_type r2 = PassthroughHasherPointer
          \<and> stream_bytes (reader_stream r2) = stream_bytes (reader_stream r)"
    by (intro exI [of _ ?r1] exI [of _ "Some fp1"] exI [of _ s1]
        exI [of _ "\<lparr>reader_type = PassthroughHasherPointer,
                   reader_stream = pipe_stream (reader_stream ?r1)\<rparr>"]
        exI [of _ "Some fp2"] exI [of _ s2]) (simp add: pipe_stream_def)
qed

theorem tee_does_not_detect_its_own_reader_witness:
  "\<exists>r1 fp1 s1 r2 fp2 s2.
      fingerprintPassthrough constant_hashes (blank_heap, example_store)
        \<lparr>reader_type = OtherReader,
         reader_stream = \<lparr>stream_bytes = [1, 2, 3], stream_error = None\<rparr>\<rparr> 3 None
        = Inr (r1, fp1, s1)
      \<and> reader_type r1 = PassthroughHasherPointer
      \<and> fingerprintPassthrough constant_hashes s1 r1 3 None = Inr (r2, fp2, s2)
      \<and> reader_type r2 = PassthroughHasherPointer
      \<and> fingerprintPassthrough constant_hashes s2 r2 3 None
          \<noteq> Inl (Panic ''nested passthrough hasher!'')"
proof -
  let ?r = "\<lparr>reader_type = OtherReader,
         reader_stream = \<lparr>stream_bytes = [1, 2, 3], stream_error = None\<rparr>\<rparr>"
  note T = tee_does_not_detect_its_own_reader
  have "run_puts (blank_heap, newInMemoryCache length_key) [] = Inr (blank_heap, example_store)
         \<and> reader_type ?r = OtherReader"
    by (simp add: example_store_def)
  from T [THEN conjunct2, THEN mp, OF this, of constant_hashes 3 3]
  obtain r1 fp1 s1 r2 fp2 s2 where
    a: "fingerprintPassthrough constant_hashes (blank_heap, example_store) ?r 3 None = Inr (r1, fp1, s1)"
      "reader_type r1 = PassthroughHasherPointer"
      "fingerprintPassthrough constant_hashes s1 r1 3 None = Inr (r2, fp2, s2)"
      "reader_type r2 = PassthroughHasherPointer"
    by blast
  from T [THEN conjunct1, THEN mp, OF a(3), of s2 3 None]
  have "fingerprintPassthrough constant_hashes s2 r2 3 None
          \<noteq> Inl (Panic ''nested passthrough hasher!'')" by simp
  with a show ?thesis by blast
qed

section \<open>Interning a fingerprint: merge or insert\<close>













section \<open>Pointers of the stored objects\<close>

lemma merged_interned_inv: "interned_inv (merged_state s e a) = interned_inv s"
  by (auto simp: interned_inv_def merged_state_def UpdateWith_cache)

lemma merged_refs_inv: "refs_inv (merged_state s e a) = refs_inv s"
  by (simp add: refs_inv_def merged_state_def)

lemma inserted_interned_inv: "interned_inv s \<Longrightarrow> interned_inv (inserted_state s a)"
  by (auto simp: interned_inv_def inserted_state_def IsCached_def SetCacheID_def)

lemma inserted_refs_inv: "refs_inv s \<Longrightarrow> refs_inv (inserted_state s a)"
  by (simp add: refs_inv_def inserted_state_def) blast

lemma PutFingerprint_refs:
  assumes "interned_inv s" "refs_inv s" "PutFingerprint s p = Inr (r, s')"
  shows "interned_inv s' \<and> refs_inv s'
    \<and> r \<in> Some ` set (Fingerprints (snd s'))
    \<and> set (Fingerprints (snd s)) \<subseteq> set (Fingerprints (snd s'))"
  using assms(3)
proof (cases rule: PutFingerprint_cases)
  case (cached a)
  with assms show ?thesis by (auto simp: interned_inv_def)
next
  case (merged a e)
  with assms show ?thesis
    by (simp add: merged_interned_inv merged_refs_inv) (simp add: merged_state_def)
next
  case (inserted a)
  with assms show ?thesis
    by (simp add: inserted_interned_inv inserted_refs_inv) (auto simp: inserted_state_def)
qed

lemma file_inserted_interned_inv:
  "interned_inv s \<Longrightarrow> interned_inv (file_inserted_state s a fp)"
  by (auto simp: interned_inv_def file_inserted_state_def IsCached_def SetCacheID_def)

lemma file_inserted_refs_inv:
  assumes "refs_inv s" "a \<notin> set (Files (snd s))" "fp \<in> Some ` set (Fingerprints (snd s))"
  shows "refs_inv (file_inserted_state s a fp)"
  using assms
  by (simp add: refs_inv_def file_inserted_state_def) blast

lemma PutFile_refs:
  assumes "store_inv s" "interned_inv s" "refs_inv s" "PutFile s p = Inr (r, s')"
  shows "interned_inv s' \<and> refs_inv s'
    \<and> r \<in> Some ` set (Files (snd s'))
    \<and> set (Files (snd s)) \<subseteq> set (Files (snd s'))
    \<and> set (Fingerprints (snd s)) \<subseteq> set (Fingerprints (snd s'))"
  using assms(4)
proof (cases rule: PutFile_cases)
  case (cached a fa)
  with assms show ?thesis by (auto simp: interned_inv_def)
next
  case (existing a fa e)
  with assms show ?thesis by auto
next
  case (new a fa fp s1)
  note F = PutFingerprint_frame [OF new(4)]
  note R = PutFingerprint_refs [OF assms(2,3) new(4)]
  from assms(1) have "files_inv s" by (simp add: store_inv_def)
  from stored_file_cached [OF this] new(3) have "a \<notin> set (Files (snd s))" by blast
  with F have a: "a \<notin> set (Files (snd s1))" by simp
  from R a have "interned_inv s'" "refs_inv s'"
    unfolding new by (simp_all add: file_inserted_interned_inv file_inserted_refs_inv)
  moreover from F R have "r \<in> Some ` set (Files (snd s'))"
    "set (Files (snd s)) \<subseteq> set (Files (snd s'))"
    "set (Fingerprints (snd s)) \<subseteq> set (Fingerprints (snd s'))"
    unfolding new by (auto simp: file_inserted_state_def)
  ultimately show ?thesis by simp
qed

lemma PutFiles_refs:
  "store_inv s \<Longrightarrow> interned_inv s \<Longrightarrow> refs_inv s \<Longrightarrow> PutFiles s ps = Inr (rs, s') \<Longrightarrow>
     interned_inv s' \<and> refs_inv s'
     \<and> set rs \<subseteq> Some ` set (Files (snd s'))
     \<and> set (Files (snd s)) \<subseteq> set (Files (snd s'))
     \<and> set (Fingerprints (snd s)) \<subseteq> set (Fingerprints (snd s'))"
proof (induction ps arbitrary: s rs)
  case Nil
  then show ?case by simp
next
  case (Cons p ps)
  from Cons.prems(4) obtain q s1 qs where
    a: "PutFile s p = Inr (q, s1)" and b: "PutFiles s1 ps = Inr (qs, s')" and r: "rs = q # qs"
    by (auto split: sum.splits prod.splits)
  note A = PutFile_refs [OF Cons.prems(1,2,3) a]
  from PutFile_store_inv [OF Cons.prems(1) a] have s1: "store_inv s1" .
  from A have "interned_inv s1" "refs_inv s1" by simp_all
  note B = Cons.IH [OF s1 this b]
  from A B r show ?case by auto
qed


lemma repo_inserted_refs:
  assumes "interned_inv s" "refs_inv s" "a \<notin> set (GitRepoSources (snd s))"
    "set rs \<subseteq> Some ` set (Files (snd s))"
  shows "interned_inv (repo_inserted_state s a rs) \<and> refs_inv (repo_inserted_state s a rs)"
  using assms
  by (auto simp: interned_inv_def refs_inv_def repo_inserted_state_def)

lemma PutGitSource_refs:
  assumes "store_inv s" "interned_inv s" "refs_inv s" "PutGitSource s p = Inr (r, s')"
  shows "interned_inv s' \<and> refs_inv s'"
  using assms(4)
proof (cases rule: PutGitSource_cases)
  case (found a e)
  with assms show ?thesis by simp
next
  case (new a rs s1)
  note R = PutFiles_refs [OF assms(1,2,3) new(3)]
  from PutFiles_frame [OF new(3)] new(2) have "a \<notin> set (GitRepoSources (snd s1))" by simp
  with R repo_inserted_refs [of s1 a rs] new(5) show ?thesis by simp
qed

lemma archive_file_set_refs:
  assumes "interned_inv s" "refs_inv s" "fl \<in> Some ` set (Files (snd s))"
  shows "interned_inv (archive_file_set s a fl) \<and> refs_inv (archive_file_set s a fl)"
  using assms
  by (auto simp: interned_inv_def refs_inv_def archive_file_set_def)

lemma archive_inserted_refs:
  assumes "interned_inv s" "refs_inv s" "a \<notin> set (ArchiveFiles (snd s))"
    "Archive_File (archive_at (fst s) a) \<in> Some ` set (Files (snd s))"
    "set rs \<subseteq> Some ` set (Files (snd s))"
  shows "interned_inv (archive_inserted_state s a rs) \<and> refs_inv (archive_inserted_state s a rs)"
  using assms
  by (auto simp: interned_inv_def refs_inv_def archive_inserted_state_def)

lemma PutArchiveFile_refs:
  assumes "store_inv s" "interned_inv s" "refs_inv s" "PutArchiveFile s p = Inr (r, s')"
  shows "interned_inv s' \<and> refs_inv s'"
  using assms(4)
proof (cases rule: PutArchiveFile_cases)
  case (found a fl s1 e)
  note R = PutFile_refs [OF assms(1,2,3) found(2)]
  with archive_file_set_refs [of s1 fl a] found(5) show ?thesis by simp
next
  case (new a fl s1 rs s3)
  note R = PutFile_refs [OF assms(1,2,3) new(2)]
  let ?s2 = "archive_file_set s1 a fl"
  from PutFile_store_inv [OF assms(1) new(2)] have "store_inv ?s2"
    by (simp add: archive_file_set_store_inv)
  moreover from R archive_file_set_refs [of s1 fl a]
  have i2: "interned_inv ?s2" "refs_inv ?s2" by simp_all
  ultimately have R3: "interned_inv s3 \<and> refs_inv s3
     \<and> set rs \<subseteq> Some ` set (Files (snd s3))
     \<and> set (Files (snd ?s2)) \<subseteq> set (Files (snd s3))
     \<and> set (Fingerprints (snd ?s2)) \<subseteq> set (Fingerprints (snd s3))"
    using new(4) by (intro PutFiles_refs) simp_all
  note F = PutFiles_frame [OF new(4)]
  from F new(3) have a: "a \<notin> set (ArchiveFiles (snd s3))"
    by (simp add: archive_file_set_def)
  from F have "Archive_File (archive_at (fst s3) a) = fl" by (simp add: archive_file_set_def)
  with R R3 have "Archive_File (archive_at (fst s3) a) \<in> Some ` set (Files (snd s3))"
    by (auto simp: archive_file_set_def)
  with R3 a archive_inserted_refs [of s3 a rs] new(6) show ?thesis by simp
qed

lemma stat_add_set: "set (stat_add kvs k v) \<subseteq> insert (k, v) (set kvs)"
  by (induction kvs k v rule: stat_add.induct) (auto split: if_splits)

lemma stat_add_keys: "set (map fst (stat_add kvs k v)) = insert k (set (map fst kvs))"
  by (induction kvs k v rule: stat_add.induct) (auto split: if_splits)

lemma stat_add_distinct: "distinct (map fst kvs) \<Longrightarrow> distinct (map fst (stat_add kvs k v))"
proof (induction kvs)
  case Nil
  show ?case by simp
next
  case (Cons kv kvs)
  obtain k' v' where kv: "kv = (k', v')" by (cases kv)
  show ?case
  proof (cases "k' = k")
    case True
    with Cons.prems kv show ?thesis by simp
  next
    case False
    from Cons have d: "distinct (map fst (stat_add kvs k v))" by simp
    from Cons.prems kv have "k' \<notin> set (map fst kvs)" by simp
    with False have "k' \<notin> set (map fst (stat_add kvs k v))"
      unfolding stat_add_keys by simp
    with d kv False show ?thesis by simp
  qed
qed

lemma PutStatFingerprint_refs:
  assumes "interned_inv s" "refs_inv s" "a \<in> set (Fingerprints (snd s))"
  shows "interned_inv (PutStatFingerprint s key a) \<and> refs_inv (PutStatFingerprint s key a)"
proof -
  from assms(2) have d: "distinct (map fst (statCache (snd s)))"
    and v: "snd ` set (statCache (snd s)) \<subseteq> set (Fingerprints (snd s))"
    by (simp_all add: refs_inv_def)
  from v assms(3) stat_add_set [of "statCache (snd s)" key a]
  have "snd ` set (stat_add (statCache (snd s)) key a) \<subseteq> set (Fingerprints (snd s))"
    by (fastforce simp: image_subset_iff)
  with assms stat_add_distinct [OF d, of key a] show ?thesis
    by (simp add: interned_inv_def refs_inv_def PutStatFingerprint_def)
qed

lemma run_puts_refs:
  "store_inv s \<Longrightarrow> interned_inv s \<Longrightarrow> refs_inv s \<Longrightarrow> stat_puts_interned s ops \<Longrightarrow>
     run_puts s ops = Inr s' \<Longrightarrow> interned_inv s' \<and> refs_inv s'"
proof (induction ops arbitrary: s)
  case Nil
  then show ?case by simp
next
  case (Cons op' ops)
  from Cons.prems(5) obtain s1 where a: "apply_put s op' = Inr s1" and b: "run_puts s1 ops = Inr s'"
    by (auto split: sum.splits)
  from apply_put_store_inv [OF Cons.prems(1) a] have s1: "store_inv s1" .
  from Cons.prems(4) a have st: "stat_puts_interned s1 ops" by simp
  have "interned_inv s1 \<and> refs_inv s1"
  proof (cases op')
    case (PutFingerprintOp p)
    with a obtain r where "PutFingerprint s p = Inr (r, s1)"
      by (auto simp: apply_put_def split: sum.splits)
    from PutFingerprint_refs [OF Cons.prems(2,3) this] show ?thesis by simp
  next
    case (PutFileOp p)
    with a obtain r where "PutFile s p = Inr (r, s1)"
      by (auto simp: apply_put_def split: sum.splits)
    from PutFile_refs [OF Cons.prems(1,2,3) this] show ?thesis by simp
  next
    case (PutGitSourceOp p)
    with a obtain r where "PutGitSource s p = Inr (r, s1)"
      by (auto simp: apply_put_def split: sum.splits)
    from PutGitSource_refs [OF Cons.prems(1,2,3) this] show ?thesis .
  next
    case (PutArchiveFileOp p)
    with a obtain r where "PutArchiveFile s p = Inr (r, s1)"
      by (auto simp: apply_put_def split: sum.splits)
    from PutArchiveFile_refs [OF Cons.prems(1,2,3) this] show ?thesis .
  next
    case (PutStatFingerprintOp key fa)
    with a have e: "s1 = PutStatFingerprint s key fa" by (simp add: apply_put_def)
    from Cons.prems(4) PutStatFingerprintOp have "fa \<in> set (Fingerprints (snd s))" by simp
    from PutStatFingerprint_refs [OF Cons.prems(2,3) this] e show ?thesis by simp
  qed
  with Cons.IH [OF s1 _ _ st b] show ?case by simp
qed

lemma new_store_refs:
  "fresh_heap h \<Longrightarrow> interned_inv (h, newInMemoryCache keys) \<and> refs_inv (h, newInMemoryCache keys)"
  by (simp add: fresh_heap_def interned_inv_def refs_inv_def newInMemoryCache_def)

section \<open>The id-addressed form of a store\<close>

lemma map_err_Inr:
  "(\<And>x. x \<in> set xs \<Longrightarrow> f x = Inr (g x)) \<Longrightarrow> map_err f xs = Inr (map g xs)"
  by (induction xs) simp_all

lemma stored_fp_index:
  assumes "fps_inv s" "p \<in> set (Fingerprints (snd s))"
  shows "CacheID (fp_cache (fingerprint_at (fst s) p)) < length (Fingerprints (snd s))
    \<and> Fingerprints (snd s) ! CacheID (fp_cache (fingerprint_at (fst s) p)) = p"
proof -
  from assms(2) obtain j where "j < length (Fingerprints (snd s))" "Fingerprints (snd s) ! j = p"
    by (auto simp: in_set_conv_nth)
  with assms(1) show ?thesis by (auto simp: fps_inv_def CacheID_def)
qed

lemma stored_file_index:
  assumes "files_inv s" "p \<in> set (Files (snd s))"
  shows "CacheID (file_cache (file_at (fst s) p)) < length (Files (snd s))
    \<and> Files (snd s) ! CacheID (file_cache (file_at (fst s) p)) = p"
proof -
  from assms(2) obtain j where "j < length (Files (snd s))" "Files (snd s) ! j = p"
    by (auto simp: in_set_conv_nth)
  with assms(1) show ?thesis by (auto simp: files_inv_def CacheID_def)
qed

text \<open>The ids that \<^verbatim>\<open>NewSerializedCache\<close> writes for a list of pointers to stored files.\<close>

lemma stored_file_ids:
  assumes "files_inv s" "set ps \<subseteq> Some ` set (Files (snd s))"
  shows "\<exists>ks. map_err (file_CacheID (fst s)) ps = Inr ks
           \<and> list_all (\<lambda>k. k < length (Files (snd s))) ks
           \<and> ps = map (\<lambda>k. Some (Files (snd s) ! k)) ks"
  using assms(2)
proof (induction ps)
  case Nil
  show ?case by simp
next
  case (Cons p ps)
  from Cons.prems obtain f where f: "p = Some f" "f \<in> set (Files (snd s))" by auto
  from Cons obtain ks where ks: "map_err (file_CacheID (fst s)) ps = Inr ks"
    "list_all (\<lambda>k. k < length (Files (snd s))) ks" "ps = map (\<lambda>k. Some (Files (snd s) ! k)) ks"
    by auto
  from f have c: "file_CacheID (fst s) p = Inr (CacheID (file_cache (file_at (fst s) f)))"
    by (simp add: file_CacheID_def)
  from stored_file_index [OF assms(1) f(2)] f(1) ks c
  show ?case
    by (intro exI [of _ "CacheID (file_cache (file_at (fst s) f)) # ks"]) simp
qed

lemma serialize_files:
  assumes "fps_inv s" "files_inv s" "refs_inv s"
  shows "\<exists>fs. map_err (serialize_file (fst s)) (Files (snd s)) = Inr fs
     \<and> list_all2 (\<lambda>a sf. sfile_Path sf = Path (file_at (fst s) a)
                      \<and> sfile_Fingerprint sf < length (Fingerprints (snd s))
                      \<and> File_Fingerprint (file_at (fst s) a)
                          = Some (Fingerprints (snd s) ! sfile_Fingerprint sf))
          (Files (snd s)) fs
     \<and> map sfile_ID fs = [0..<length fs]"
proof -
  let ?g = "\<lambda>a. \<lparr>sfile_ID = CacheID (file_cache (file_at (fst s) a)),
                 sfile_Path = Path (file_at (fst s) a),
                 sfile_Fingerprint = CacheID (fp_cache (fingerprint_at (fst s)
                    (the (File_Fingerprint (file_at (fst s) a)))))\<rparr>"
  have p: "\<exists>p \<in> set (Fingerprints (snd s)). File_Fingerprint (file_at (fst s) a) = Some p"
    if "a \<in> set (Files (snd s))" for a
    using assms(3) that by (simp add: refs_inv_def)
  have "map_err (serialize_file (fst s)) (Files (snd s)) = Inr (map ?g (Files (snd s)))"
  proof (rule map_err_Inr)
    fix a assume "a \<in> set (Files (snd s))"
    from p [OF this] show "serialize_file (fst s) a = Inr (?g a)"
      by (auto simp: serialize_file_def fingerprint_CacheID_def)
  qed
  moreover have "list_all2 (\<lambda>a sf. sfile_Path sf = Path (file_at (fst s) a)
                      \<and> sfile_Fingerprint sf < length (Fingerprints (snd s))
                      \<and> File_Fingerprint (file_at (fst s) a)
                          = Some (Fingerprints (snd s) ! sfile_Fingerprint sf))
          (Files (snd s)) (map ?g (Files (snd s)))"
    unfolding list_all2_map2
  proof (rule list_all2_same [THEN iffD2], rule ballI)
    fix a assume "a \<in> set (Files (snd s))"
    from p [OF this] obtain q where q: "q \<in> set (Fingerprints (snd s))"
      "File_Fingerprint (file_at (fst s) a) = Some q" by blast
    from stored_fp_index [OF assms(1) q(1)] q(2)
    show "sfile_Path (?g a) = Path (file_at (fst s) a)
        \<and> sfile_Fingerprint (?g a) < length (Fingerprints (snd s))
        \<and> File_Fingerprint (file_at (fst s) a)
            = Some (Fingerprints (snd s) ! sfile_Fingerprint (?g a))"
      by simp
  qed
  moreover have "map sfile_ID (map ?g (Files (snd s))) = [0..<length (map ?g (Files (snd s)))]"
    using assms(2) by (intro nth_equalityI) (simp_all add: files_inv_def CacheID_def)
  ultimately show ?thesis by blast
qed


lemma map_err_ex:
  "(\<And>x. x \<in> set xs \<Longrightarrow> \<exists>y. f x = Inr y \<and> Q x y) \<Longrightarrow>
     \<exists>ys. map_err f xs = Inr ys \<and> list_all2 Q xs ys"
proof (induction xs)
  case Nil
  show ?case by simp
next
  case (Cons x xs)
  from Cons.prems [of x] obtain y where y: "f x = Inr y" "Q x y" by auto
  from Cons.IH Cons.prems obtain ys where "map_err f xs = Inr ys" "list_all2 Q xs ys" by auto
  with y show ?case by (intro exI [of _ "y # ys"]) simp
qed

lemma list_all2_enumerate:
  assumes "list_all2 (\<lambda>ia y. idf y = fst ia \<and> Q (snd ia) y) (enumerate n xs) ys"
  shows "list_all2 Q xs ys \<and> map idf ys = [n..<n + length ys]"
proof -
  from assms have l: "length ys = length xs" by (auto dest: list_all2_lengthD)
  from assms have a: "idf (ys ! i) = n + i \<and> Q (xs ! i) (ys ! i)" if "i < length xs" for i
    using that by (auto simp: list_all2_conv_all_nth nth_enumerate_eq)
  from l a have "list_all2 Q xs ys" by (simp add: list_all2_conv_all_nth)
  moreover from l a have "map idf ys = [n..<n + length ys]"
    by (intro nth_equalityI) simp_all
  ultimately show ?thesis by simp
qed

lemma serialize_archives:
  assumes "files_inv s" "refs_inv s"
  shows "\<exists>as. map_err (serialize_archive (fst s)) (enumerate 0 (ArchiveFiles (snd s))) = Inr as
     \<and> list_all2 (\<lambda>a sa. sa_File sa < length (Files (snd s))
                      \<and> Archive_File (archive_at (fst s) a) = Some (Files (snd s) ! sa_File sa)
                      \<and> list_all (\<lambda>k. k < length (Files (snd s))) (sa_Entries sa)
                      \<and> Entries (archive_at (fst s) a)
                          = map (\<lambda>k. Some (Files (snd s) ! k)) (sa_Entries sa))
          (ArchiveFiles (snd s)) as
     \<and> map sa_ID as = [0..<length as]"
proof -
  let ?Q = "\<lambda>a sa. sa_File sa < length (Files (snd s))
                      \<and> Archive_File (archive_at (fst s) a) = Some (Files (snd s) ! sa_File sa)
                      \<and> list_all (\<lambda>k. k < length (Files (snd s))) (sa_Entries sa)
                      \<and> Entries (archive_at (fst s) a)
                          = map (\<lambda>k. Some (Files (snd s) ! k)) (sa_Entries sa)"
  have "\<exists>as. map_err (serialize_archive (fst s)) (enumerate 0 (ArchiveFiles (snd s))) = Inr as
     \<and> list_all2 (\<lambda>ia sa. sa_ID sa = fst ia \<and> ?Q (snd ia) sa)
         (enumerate 0 (ArchiveFiles (snd s))) as"
  proof (rule map_err_ex)
    fix ia assume "ia \<in> set (enumerate 0 (ArchiveFiles (snd s)))"
    then have "fst ia < length (ArchiveFiles (snd s))"
      "snd ia = ArchiveFiles (snd s) ! fst ia"
      by (simp_all add: in_set_enumerate_eq)
    then have m: "snd ia \<in> set (ArchiveFiles (snd s))" by simp
    with assms(2) obtain f where f: "f \<in> set (Files (snd s))"
      "Archive_File (archive_at (fst s) (snd ia)) = Some f"
      by (auto simp: refs_inv_def)
    from m assms(2) have "set (Entries (archive_at (fst s) (snd ia))) \<subseteq> Some ` set (Files (snd s))"
      by (simp add: refs_inv_def)
    from stored_file_ids [OF assms(1) this] obtain ks where
      ks: "map_err (file_CacheID (fst s)) (Entries (archive_at (fst s) (snd ia))) = Inr ks"
      "list_all (\<lambda>k. k < length (Files (snd s))) ks"
      "Entries (archive_at (fst s) (snd ia)) = map (\<lambda>k. Some (Files (snd s) ! k)) ks"
      by blast
    from f have c: "file_CacheID (fst s) (Archive_File (archive_at (fst s) (snd ia)))
        = Inr (CacheID (file_cache (file_at (fst s) f)))"
      by (simp add: file_CacheID_def)
    from stored_file_index [OF assms(1) f(1)] f(2) ks c
    show "\<exists>sa. serialize_archive (fst s) ia = Inr sa \<and> sa_ID sa = fst ia \<and> ?Q (snd ia) sa"
      by (simp add: serialize_archive_def)
  qed
  then obtain as where as: "map_err (serialize_archive (fst s)) (enumerate 0 (ArchiveFiles (snd s)))
      = Inr as"
    "list_all2 (\<lambda>ia sa. sa_ID sa = fst ia \<and> ?Q (snd ia) sa) (enumerate 0 (ArchiveFiles (snd s))) as"
    by blast
  from list_all2_enumerate [OF as(2)] as(1) show ?thesis by simp
qed

lemma serialize_repos:
  assumes "files_inv s" "refs_inv s"
  shows "\<exists>rs. map_err (serialize_repo (fst s)) (GitRepoSources (snd s)) = Inr rs
     \<and> list_all2 (\<lambda>a sr. sr_ID sr = 0
                      \<and> sr_Commit sr = Commit (repo_at (fst s) a)
                      \<and> sr_Tag sr = Tag (repo_at (fst s) a)
                      \<and> sr_Branch sr = Branch (repo_at (fst s) a)
                      \<and> sr_URL sr = URL (repo_at (fst s) a)
                      \<and> list_all (\<lambda>k. k < length (Files (snd s))) (sr_Files sr)
                      \<and> Repo_Files (repo_at (fst s) a)
                          = map (\<lambda>k. Some (Files (snd s) ! k)) (sr_Files sr))
          (GitRepoSources (snd s)) rs"
proof (rule map_err_ex)
  fix a assume "a \<in> set (GitRepoSources (snd s))"
  with assms(2) have "set (Repo_Files (repo_at (fst s) a)) \<subseteq> Some ` set (Files (snd s))"
    by (simp add: refs_inv_def)
  from stored_file_ids [OF assms(1) this] obtain ks where
    ks: "map_err (file_CacheID (fst s)) (Repo_Files (repo_at (fst s) a)) = Inr ks"
    "list_all (\<lambda>k. k < length (Files (snd s))) ks"
    "Repo_Files (repo_at (fst s) a) = map (\<lambda>k. Some (Files (snd s) ! k)) ks"
    by blast
  then show "\<exists>sr. serialize_repo (fst s) a = Inr sr \<and> sr_ID sr = 0
                      \<and> sr_Commit sr = Commit (repo_at (fst s) a)
                      \<and> sr_Tag sr = Tag (repo_at (fst s) a)
                      \<and> sr_Branch sr = Branch (repo_at (fst s) a)
                      \<and> sr_URL sr = URL (repo_at (fst s) a)
                      \<and> list_all (\<lambda>k. k < length (Files (snd s))) (sr_Files sr)
                      \<and> Repo_Files (repo_at (fst s) a)
                          = map (\<lambda>k. Some (Files (snd s) ! k)) (sr_Files sr)"
    by (simp add: serialize_repo_def)
qed

lemma serialize_stat_cache:
  assumes "fps_inv s" "refs_inv s"
  shows "list_all2 (\<lambda>kp ki. fst ki = fst kp
                      \<and> snd ki < length (Fingerprints (snd s))
                      \<and> snd kp = Fingerprints (snd s) ! snd ki)
          (statCache (snd s))
          (map (\<lambda>kf. (fst kf, CacheID (fp_cache (fingerprint_at (fst s) (snd kf)))))
             (statCache (snd s)))"
  unfolding list_all2_map2
proof (rule list_all2_same [THEN iffD2], rule ballI)
  fix kp assume "kp \<in> set (statCache (snd s))"
  with assms(2) have "snd kp \<in> set (Fingerprints (snd s))" by (auto simp: refs_inv_def)
  from stored_fp_index [OF assms(1) this]
  show "fst (fst kp, CacheID (fp_cache (fingerprint_at (fst s) (snd kp)))) = fst kp
      \<and> snd (fst kp, CacheID (fp_cache (fingerprint_at (fst s) (snd kp))))
          < length (Fingerprints (snd s))
      \<and> snd kp = Fingerprints (snd s)
          ! snd (fst kp, CacheID (fp_cache (fingerprint_at (fst s) (snd kp))))"
    by simp
qed

lemma serialize_fingerprints:
  "list_all2 (\<lambda>a sf. (sf_Fingerprint sf)\<lparr>fp_cache := no_cache_id\<rparr>
                             = (fingerprint_at h a)\<lparr>fp_cache := no_cache_id\<rparr>)
     xs (map (\<lambda>ia. \<lparr>sf_ID = fst ia, sf_Fingerprint = fingerprint_at h (snd ia)\<rparr>) (enumerate n xs))
   \<and> map sf_ID (map (\<lambda>ia. \<lparr>sf_ID = fst ia, sf_Fingerprint = fingerprint_at h (snd ia)\<rparr>)
        (enumerate n xs)) = [n..<n + length xs]"
  by (simp add: list_all2_conv_all_nth nth_enumerate_eq comp_def map_fst_enumerate [unfolded comp_def])

lemma NewSerializedCache_form:
  assumes "store_inv s" "refs_inv s"
  shows "\<exists>d. NewSerializedCache s = Inr d \<and> id_addressed_form s d"
proof -
  from assms(1) have i: "fps_inv s" "files_inv s" by (simp_all add: store_inv_def)
  from serialize_files [OF i assms(2)] obtain fs where
    fs: "map_err (serialize_file (fst s)) (Files (snd s)) = Inr fs"
    and fs2: "list_all2 (\<lambda>a sf. sfile_Path sf = Path (file_at (fst s) a)
                      \<and> sfile_Fingerprint sf < length (Fingerprints (snd s))
                      \<and> File_Fingerprint (file_at (fst s) a)
                          = Some (Fingerprints (snd s) ! sfile_Fingerprint sf))
          (Files (snd s)) fs"
      "map sfile_ID fs = [0..<length fs]"
    by blast
  from serialize_archives [OF i(2) assms(2)] obtain as where
    as: "map_err (serialize_archive (fst s)) (enumerate 0 (ArchiveFiles (snd s))) = Inr as"
    and as2: "list_all2 (\<lambda>a sa. sa_File sa < length (Files (snd s))
                      \<and> Archive_File (archive_at (fst s) a) = Some (Files (snd s) ! sa_File sa)
                      \<and> list_all (\<lambda>k. k < length (Files (snd s))) (sa_Entries sa)
                      \<and> Entries (archive_at (fst s) a)
                          = map (\<lambda>k. Some (Files (snd s) ! k)) (sa_Entries sa))
          (ArchiveFiles (snd s)) as"
      "map sa_ID as = [0..<length as]"
    by blast
  from serialize_repos [OF i(2) assms(2)] obtain rs where
    rs: "map_err (serialize_repo (fst s)) (GitRepoSources (snd s)) = Inr rs"
    and rs2: "list_all2 (\<lambda>a sr. sr_ID sr = 0
                      \<and> sr_Commit sr = Commit (repo_at (fst s) a)
                      \<and> sr_Tag sr = Tag (repo_at (fst s) a)
                      \<and> sr_Branch sr = Branch (repo_at (fst s) a)
                      \<and> sr_URL sr = URL (repo_at (fst s) a)
                      \<and> list_all (\<lambda>k. k < length (Files (snd s))) (sr_Files sr)
                      \<and> Repo_Files (repo_at (fst s) a)
                          = map (\<lambda>k. Some (Files (snd s) ! k)) (sr_Files sr))
          (GitRepoSources (snd s)) rs"
    by blast
  let ?d = "\<lparr>S_Fingerprints = map (\<lambda>ia. \<lparr>sf_ID = fst ia, sf_Fingerprint = fingerprint_at (fst s) (snd ia)\<rparr>)
                  (enumerate 0 (Fingerprints (snd s))),
             S_Files = fs, S_Archives = as, S_Repos = rs,
             S_StatCache = map (\<lambda>kf. (fst kf, CacheID (fp_cache (fingerprint_at (fst s) (snd kf)))))
                                  (statCache (snd s))\<rparr>"
  from fs as rs have "NewSerializedCache s = Inr ?d"
    by (simp add: NewSerializedCache_def Let_def)
  moreover from fs2 as2 rs2 serialize_stat_cache [OF i(1) assms(2)]
    serialize_fingerprints [of "fst s" "Fingerprints (snd s)" 0]
  have "id_addressed_form s ?d"
    unfolding id_addressed_form_def by simp
  ultimately show ?thesis by blast
qed

section \<open>Loading the id-addressed form; the round trip\<close>

lemma ids_Cons:
  "map idf (x # xs) = [i..<i + length (x # xs)] \<Longrightarrow>
     idf x = i \<and> map idf xs = [Suc i..<Suc i + length xs]"
  by (simp add: upt_conv_Cons del: upt_Suc)

lemma empty_range: "(if (n::nat) \<le> a \<and> a < n + 0 then x else y) = y"
  by auto

lemma load_fingerprints_form:
  assumes "map sf_ID sfs = [i..<i + length sfs]"
  shows "\<exists>v'. load_fingerprints h v sfs i =
       Inr (h\<lparr>fingerprint_at :=
                (\<lambda>a. if next_fingerprint h \<le> a \<and> a < next_fingerprint h + length sfs
                     then (sf_Fingerprint (sfs ! (a - next_fingerprint h)))
                            \<lparr>fp_cache := \<lparr>cid = i + (a - next_fingerprint h), hasID = True\<rparr>\<rparr>
                     else fingerprint_at h a),
              next_fingerprint := next_fingerprint h + length sfs\<rparr>, v')
     \<and> Fingerprints v' = Fingerprints v @ [next_fingerprint h..<next_fingerprint h + length sfs]
     \<and> Files v' = Files v \<and> ArchiveFiles v' = ArchiveFiles v
     \<and> GitRepoSources v' = GitRepoSources v \<and> statCache v' = statCache v"
  using assms
proof (induction sfs arbitrary: h v i)
  case Nil
  show ?case by (simp only: list.size empty_range load_fingerprints.simps) simp
next
  case (Cons sf sfs)
  from ids_Cons [OF Cons.prems] have id: "sf_ID sf = i"
    and ids: "map sf_ID sfs = [Suc i..<Suc i + length sfs]" by simp_all
  let ?n = "next_fingerprint h"
  let ?f = "(sf_Fingerprint sf)\<lparr>fp_cache := SetCacheID (fp_cache (sf_Fingerprint sf)) i\<rparr>"
  let ?h1 = "h\<lparr>fingerprint_at := (fingerprint_at h)(?n := ?f), next_fingerprint := ?n + 1\<rparr>"
  let ?v1 = "v\<lparr>Fingerprints := Fingerprints v @ [?n],
               gitSHAIndex := (gitSHAIndex v)(GitSHA ?f \<mapsto> i),
               gitSHAFilter := Filter_Add (gitSHAFilter v) (GitSHA ?f)\<rparr>"
  from Cons.IH [OF ids, of ?h1 ?v1] obtain v' where
    l: "load_fingerprints ?h1 ?v1 sfs (Suc i) =
       Inr (?h1\<lparr>fingerprint_at :=
                (\<lambda>a. if next_fingerprint ?h1 \<le> a \<and> a < next_fingerprint ?h1 + length sfs
                     then (sf_Fingerprint (sfs ! (a - next_fingerprint ?h1)))
                            \<lparr>fp_cache := \<lparr>cid = Suc i + (a - next_fingerprint ?h1), hasID = True\<rparr>\<rparr>
                     else fingerprint_at ?h1 a),
              next_fingerprint := next_fingerprint ?h1 + length sfs\<rparr>, v')"
    and f: "Fingerprints v' = Fingerprints ?v1 @ [next_fingerprint ?h1..<next_fingerprint ?h1 + length sfs]"
      "Files v' = Files ?v1" "ArchiveFiles v' = ArchiveFiles ?v1"
      "GitRepoSources v' = GitRepoSources ?v1" "statCache v' = statCache ?v1"
    by blast
  have e: "load_fingerprints h v (sf # sfs) i = load_fingerprints ?h1 ?v1 sfs (Suc i)"
    using id by (simp add: alloc_fingerprint_def Let_def)
  have h: "?h1\<lparr>fingerprint_at :=
                (\<lambda>a. if next_fingerprint ?h1 \<le> a \<and> a < next_fingerprint ?h1 + length sfs
                     then (sf_Fingerprint (sfs ! (a - next_fingerprint ?h1)))
                            \<lparr>fp_cache := \<lparr>cid = Suc i + (a - next_fingerprint ?h1), hasID = True\<rparr>\<rparr>
                     else fingerprint_at ?h1 a),
              next_fingerprint := next_fingerprint ?h1 + length sfs\<rparr>
      = h\<lparr>fingerprint_at :=
                (\<lambda>a. if ?n \<le> a \<and> a < ?n + length (sf # sfs)
                     then (sf_Fingerprint ((sf # sfs) ! (a - ?n)))
                            \<lparr>fp_cache := \<lparr>cid = i + (a - ?n), hasID = True\<rparr>\<rparr>
                     else fingerprint_at h a),
              next_fingerprint := ?n + length (sf # sfs)\<rparr>"
    by (rule heap.equality) (auto simp: fun_eq_iff nth_Cons' SetCacheID_def Suc_diff_Suc)
  from f have f': "Fingerprints v' = Fingerprints v @ [?n..<?n + length (sf # sfs)]"
    by (simp add: upt_conv_Cons del: upt_Suc)
  from e l h f f' show ?case by (intro exI [of _ v']) simp
qed


lemma map_err_index:
  "list_all (\<lambda>k. k < length xs) ks \<Longrightarrow> map_err (index xs) ks = Inr (map ((!) xs) ks)"
  by (induction ks) (simp_all add: index_def)

lemma load_files_form:
  assumes "map sfile_ID sfs = [i..<i + length sfs]"
    "list_all (\<lambda>sf. sfile_Fingerprint sf < length (Fingerprints v)) sfs"
  shows "load_files h v sfs i =
       Inr (h\<lparr>file_at :=
                (\<lambda>a. if next_file h \<le> a \<and> a < next_file h + length sfs
                     then \<lparr>Path = sfile_Path (sfs ! (a - next_file h)),
                           File_Fingerprint =
                             Some (Fingerprints v ! sfile_Fingerprint (sfs ! (a - next_file h))),
                           file_cache = \<lparr>cid = i + (a - next_file h), hasID = True\<rparr>\<rparr>
                     else file_at h a),
              next_file := next_file h + length sfs\<rparr>,
            v\<lparr>Files := Files v @ [next_file h..<next_file h + length sfs]\<rparr>)"
  using assms
proof (induction sfs arbitrary: h v i)
  case Nil
  show ?case by (simp only: list.size empty_range load_files.simps) simp
next
  case (Cons sf sfs)
  from ids_Cons [OF Cons.prems(1)] have id: "sfile_ID sf = i"
    and ids: "map sfile_ID sfs = [Suc i..<Suc i + length sfs]" by simp_all
  from Cons.prems(2) have r: "sfile_Fingerprint sf < length (Fingerprints v)"
    and rs: "list_all (\<lambda>sf. sfile_Fingerprint sf < length (Fingerprints v)) sfs" by simp_all
  let ?n = "next_file h"
  let ?f = "\<lparr>Path = sfile_Path sf, File_Fingerprint = Some (Fingerprints v ! sfile_Fingerprint sf),
             file_cache = SetCacheID no_cache_id i\<rparr>"
  let ?h1 = "h\<lparr>file_at := (file_at h)(?n := ?f), next_file := ?n + 1\<rparr>"
  let ?v1 = "v\<lparr>Files := Files v @ [?n]\<rparr>"
  have e: "load_files h v (sf # sfs) i = load_files ?h1 ?v1 sfs (Suc i)"
    using id r by (simp add: alloc_file_def Let_def index_def)
  from rs have rs1: "list_all (\<lambda>sf. sfile_Fingerprint sf < length (Fingerprints ?v1)) sfs" by simp
  note l = Cons.IH [OF ids rs1, of ?h1]
  have h: "?h1\<lparr>file_at :=
                (\<lambda>a. if next_file ?h1 \<le> a \<and> a < next_file ?h1 + length sfs
                     then \<lparr>Path = sfile_Path (sfs ! (a - next_file ?h1)),
                           File_Fingerprint =
                             Some (Fingerprints ?v1 ! sfile_Fingerprint (sfs ! (a - next_file ?h1))),
                           file_cache = \<lparr>cid = Suc i + (a - next_file ?h1), hasID = True\<rparr>\<rparr>
                     else file_at ?h1 a),
              next_file := next_file ?h1 + length sfs\<rparr>
      = h\<lparr>file_at :=
                (\<lambda>a. if ?n \<le> a \<and> a < ?n + length (sf # sfs)
                     then \<lparr>Path = sfile_Path ((sf # sfs) ! (a - ?n)),
                           File_Fingerprint =
                             Some (Fingerprints v ! sfile_Fingerprint ((sf # sfs) ! (a - ?n))),
                           file_cache = \<lparr>cid = i + (a - ?n), hasID = True\<rparr>\<rparr>
                     else file_at h a),
              next_file := ?n + length (sf # sfs)\<rparr>"
    by (rule heap.equality)
       (auto simp: fun_eq_iff nth_Cons' SetCacheID_def no_cache_id_def Suc_diff_Suc)
  have v: "?v1\<lparr>Files := Files ?v1 @ [next_file ?h1..<next_file ?h1 + length sfs]\<rparr>
      = v\<lparr>Files := Files v @ [?n..<?n + length (sf # sfs)]\<rparr>"
    by (simp add: upt_conv_Cons del: upt_Suc)
  show ?case unfolding e l h v ..
qed

lemma load_archives_form:
  assumes "map sa_ID sas = [i..<i + length sas]"
    "list_all (\<lambda>sa. sa_File sa < length (Files v)
                \<and> list_all (\<lambda>k. k < length (Files v)) (sa_Entries sa)) sas"
  shows "load_archives h v sas i =
       Inr (h\<lparr>archive_at :=
                (\<lambda>a. if next_archive h \<le> a \<and> a < next_archive h + length sas
                     then \<lparr>Archive_File = Some (Files v ! sa_File (sas ! (a - next_archive h))),
                           Entries = map (\<lambda>k. Some (Files v ! k))
                                       (sa_Entries (sas ! (a - next_archive h))),
                           archive_cache = \<lparr>cid = i + (a - next_archive h), hasID = True\<rparr>\<rparr>
                     else archive_at h a),
              next_archive := next_archive h + length sas\<rparr>,
            v\<lparr>ArchiveFiles := ArchiveFiles v @ [next_archive h..<next_archive h + length sas]\<rparr>)"
  using assms
proof (induction sas arbitrary: h v i)
  case Nil
  show ?case by (simp only: list.size empty_range load_archives.simps) simp
next
  case (Cons sa sas)
  from ids_Cons [OF Cons.prems(1)] have id: "sa_ID sa = i"
    and ids: "map sa_ID sas = [Suc i..<Suc i + length sas]" by simp_all
  from Cons.prems(2) have r: "sa_File sa < length (Files v)"
    "list_all (\<lambda>k. k < length (Files v)) (sa_Entries sa)"
    and rs: "list_all (\<lambda>sa. sa_File sa < length (Files v)
                \<and> list_all (\<lambda>k. k < length (Files v)) (sa_Entries sa)) sas" by simp_all
  let ?n = "next_archive h"
  let ?f = "\<lparr>Archive_File = Some (Files v ! sa_File sa),
             Entries = map Some (map ((!) (Files v)) (sa_Entries sa)),
             archive_cache = SetCacheID no_cache_id i\<rparr>"
  let ?h1 = "h\<lparr>archive_at := (archive_at h)(?n := ?f), next_archive := ?n + 1\<rparr>"
  let ?v1 = "v\<lparr>ArchiveFiles := ArchiveFiles v @ [?n]\<rparr>"
  have e: "load_archives h v (sa # sas) i = load_archives ?h1 ?v1 sas (Suc i)"
    using id r by (simp add: alloc_archive_def Let_def index_def map_err_index)
  from rs have rs1: "list_all (\<lambda>sa. sa_File sa < length (Files ?v1)
                \<and> list_all (\<lambda>k. k < length (Files ?v1)) (sa_Entries sa)) sas" by simp
  note l = Cons.IH [OF ids rs1, of ?h1]
  have h: "?h1\<lparr>archive_at :=
                (\<lambda>a. if next_archive ?h1 \<le> a \<and> a < next_archive ?h1 + length sas
                     then \<lparr>Archive_File = Some (Files ?v1 ! sa_File (sas ! (a - next_archive ?h1))),
                           Entries = map (\<lambda>k. Some (Files ?v1 ! k))
                                       (sa_Entries (sas ! (a - next_archive ?h1))),
                           archive_cache = \<lparr>cid = Suc i + (a - next_archive ?h1), hasID = True\<rparr>\<rparr>
                     else archive_at ?h1 a),
              next_archive := next_archive ?h1 + length sas\<rparr>
      = h\<lparr>archive_at :=
                (\<lambda>a. if ?n \<le> a \<and> a < ?n + length (sa # sas)
                     then \<lparr>Archive_File = Some (Files v ! sa_File ((sa # sas) ! (a - ?n))),
                           Entries = map (\<lambda>k. Some (Files v ! k))
                                       (sa_Entries ((sa # sas) ! (a - ?n))),
                           archive_cache = \<lparr>cid = i + (a - ?n), hasID = True\<rparr>\<rparr>
                     else archive_at h a),
              next_archive := ?n + length (sa # sas)\<rparr>"
    by (rule heap.equality)
       (auto simp: fun_eq_iff nth_Cons' SetCacheID_def no_cache_id_def Suc_diff_Suc comp_def)
  have v: "?v1\<lparr>ArchiveFiles := ArchiveFiles ?v1 @ [next_archive ?h1..<next_archive ?h1 + length sas]\<rparr>
      = v\<lparr>ArchiveFiles := ArchiveFiles v @ [?n..<?n + length (sa # sas)]\<rparr>"
    by (simp add: upt_conv_Cons del: upt_Suc)
  show ?case unfolding e l h v ..
qed

lemma load_repos_form:
  assumes "list_all (\<lambda>r. list_all (\<lambda>k. k < length (Files v)) (sr_Files r)) rs"
  shows "load_repos h v rs i =
       Inr (h\<lparr>repo_at :=
                (\<lambda>a. if next_repo h \<le> a \<and> a < next_repo h + length rs
                     then \<lparr>Commit = sr_Commit (rs ! (a - next_repo h)),
                           Tag = sr_Tag (rs ! (a - next_repo h)),
                           Branch = sr_Branch (rs ! (a - next_repo h)),
                           URL = sr_URL (rs ! (a - next_repo h)),
                           Repo_Files = map (\<lambda>k. Some (Files v ! k))
                                          (sr_Files (rs ! (a - next_repo h))),
                           repo_cache = \<lparr>cid = i + (a - next_repo h), hasID = True\<rparr>\<rparr>
                     else repo_at h a),
              next_repo := next_repo h + length rs\<rparr>,
            v\<lparr>GitRepoSources := GitRepoSources v @ [next_repo h..<next_repo h + length rs]\<rparr>)"
  using assms
proof (induction rs arbitrary: h v i)
  case Nil
  show ?case by (simp only: list.size empty_range load_repos.simps) simp
next
  case (Cons r rs)
  from Cons.prems have q: "list_all (\<lambda>k. k < length (Files v)) (sr_Files r)"
    and qs: "list_all (\<lambda>r. list_all (\<lambda>k. k < length (Files v)) (sr_Files r)) rs" by simp_all
  let ?n = "next_repo h"
  let ?f = "\<lparr>Commit = sr_Commit r, Tag = sr_Tag r, Branch = sr_Branch r, URL = sr_URL r,
             Repo_Files = map Some (map ((!) (Files v)) (sr_Files r)),
             repo_cache = SetCacheID no_cache_id i\<rparr>"
  let ?h1 = "h\<lparr>repo_at := (repo_at h)(?n := ?f), next_repo := ?n + 1\<rparr>"
  let ?v1 = "v\<lparr>GitRepoSources := GitRepoSources v @ [?n]\<rparr>"
  have e: "load_repos h v (r # rs) i = load_repos ?h1 ?v1 rs (Suc i)"
    using q by (simp add: alloc_repo_def Let_def map_err_index)
  from qs have qs1: "list_all (\<lambda>r. list_all (\<lambda>k. k < length (Files ?v1)) (sr_Files r)) rs"
    by simp
  note l = Cons.IH [OF qs1, of ?h1 "Suc i"]
  have h: "?h1\<lparr>repo_at :=
                (\<lambda>a. if next_repo ?h1 \<le> a \<and> a < next_repo ?h1 + length rs
                     then \<lparr>Commit = sr_Commit (rs ! (a - next_repo ?h1)),
                           Tag = sr_Tag (rs ! (a - next_repo ?h1)),
                           Branch = sr_Branch (rs ! (a - next_repo ?h1)),
                           URL = sr_URL (rs ! (a - next_repo ?h1)),
                           Repo_Files = map (\<lambda>k. Some (Files ?v1 ! k))
                                          (sr_Files (rs ! (a - next_repo ?h1))),
                           repo_cache = \<lparr>cid = Suc i + (a - next_repo ?h1), hasID = True\<rparr>\<rparr>
                     else repo_at ?h1 a),
              next_repo := next_repo ?h1 + length rs\<rparr>
      = h\<lparr>repo_at :=
                (\<lambda>a. if ?n \<le> a \<and> a < ?n + length (r # rs)
                     then \<lparr>Commit = sr_Commit ((r # rs) ! (a - ?n)),
                           Tag = sr_Tag ((r # rs) ! (a - ?n)),
                           Branch = sr_Branch ((r # rs) ! (a - ?n)),
                           URL = sr_URL ((r # rs) ! (a - ?n)),
                           Repo_Files = map (\<lambda>k. Some (Files v ! k))
                                          (sr_Files ((r # rs) ! (a - ?n))),
                           repo_cache = \<lparr>cid = i + (a - ?n), hasID = True\<rparr>\<rparr>
                     else repo_at h a),
              next_repo := ?n + length (r # rs)\<rparr>"
    by (rule heap.equality)
       (auto simp: fun_eq_iff nth_Cons' SetCacheID_def no_cache_id_def Suc_diff_Suc comp_def)
  have v: "?v1\<lparr>GitRepoSources := GitRepoSources ?v1 @ [next_repo ?h1..<next_repo ?h1 + length rs]\<rparr>
      = v\<lparr>GitRepoSources := GitRepoSources v @ [?n..<?n + length (r # rs)]\<rparr>"
    by (simp add: upt_conv_Cons del: upt_Suc)
  show ?case unfolding e l h v ..
qed

lemma stat_add_fresh: "k \<notin> fst ` set kvs \<Longrightarrow> stat_add kvs k v = kvs @ [(k, v)]"
  by (induction kvs k v rule: stat_add.induct) auto

lemma load_stat_cache_form:
  assumes "list_all (\<lambda>kf. snd kf < length (Fingerprints v)) kfs" "distinct (map fst kfs)"
    "fst ` set kfs \<inter> fst ` set (statCache v) = {}"
  shows "load_stat_cache v kfs =
       Inr (v\<lparr>statCache := statCache v @ map (\<lambda>kf. (fst kf, Fingerprints v ! snd kf)) kfs\<rparr>)"
  using assms
proof (induction kfs arbitrary: v)
  case Nil
  show ?case by simp
next
  case (Cons kf kfs)
  let ?v1 = "v\<lparr>statCache := statCache v @ [(fst kf, Fingerprints v ! snd kf)]\<rparr>"
  from Cons.prems(3) have "fst kf \<notin> fst ` set (statCache v)" by auto
  from stat_add_fresh [OF this] Cons.prems(1)
  have e: "load_stat_cache v (kf # kfs) = load_stat_cache ?v1 kfs"
    by (simp add: index_def)
  from Cons.prems have "list_all (\<lambda>kf. snd kf < length (Fingerprints ?v1)) kfs"
    "distinct (map fst kfs)" "fst ` set kfs \<inter> fst ` set (statCache ?v1) = {}"
    by auto
  from Cons.IH [OF this] e show ?case by simp
qed


lemma load_ids_in_range:
  assumes "ids_in_range d"
  shows "\<exists>s'. loadSerializedCache (h, newInMemoryCache keys) d = Inr s'
           \<and> id_addressed_form s' d \<and> ids_consistent s'"
proof -
  define sfs where "sfs = S_Fingerprints d"
  define sfiles where "sfiles = S_Files d"
  define sas where "sas = S_Archives d"
  define srs where "srs = S_Repos d"
  define kfs where "kfs = S_StatCache d"
  from assms have w:
    "map sf_ID sfs = [0..<0 + length sfs]"
    "map sfile_ID sfiles = [0..<0 + length sfiles]"
    "list_all (\<lambda>sf. sfile_Fingerprint sf < length sfs) sfiles"
    "map sa_ID sas = [0..<0 + length sas]"
    "list_all (\<lambda>sa. sa_File sa < length sfiles
                    \<and> list_all (\<lambda>k. k < length sfiles) (sa_Entries sa)) sas"
    "list_all (\<lambda>sr. sr_ID sr = 0 \<and> list_all (\<lambda>k. k < length sfiles) (sr_Files sr)) srs"
    "list_all (\<lambda>ki. snd ki < length sfs) kfs"
    "distinct (map fst kfs)"
    by (simp_all add: ids_in_range_def sfs_def sfiles_def sas_def srs_def kfs_def)
  let ?v0 = "(newInMemoryCache keys)\<lparr>gitSHAIndex := Map.empty, Fingerprints := []\<rparr>"
  define fps where "fps = [next_fingerprint h..<next_fingerprint h + length sfs]"
  define files where "files = [next_file h..<next_file h + length sfiles]"
  define H1 where "H1 = h\<lparr>fingerprint_at :=
                (\<lambda>a. if next_fingerprint h \<le> a \<and> a < next_fingerprint h + length sfs
                     then (sf_Fingerprint (sfs ! (a - next_fingerprint h)))
                            \<lparr>fp_cache := \<lparr>cid = 0 + (a - next_fingerprint h), hasID = True\<rparr>\<rparr>
                     else fingerprint_at h a),
              next_fingerprint := next_fingerprint h + length sfs\<rparr>"
  from load_fingerprints_form [OF w(1), of h ?v0] obtain v1 where
    l1: "load_fingerprints h ?v0 sfs 0 = Inr (H1, v1)"
    and v1: "Fingerprints v1 = fps" "Files v1 = []" "ArchiveFiles v1 = []"
      "GitRepoSources v1 = []" "statCache v1 = []"
    unfolding H1_def fps_def by (auto simp: newInMemoryCache_def)
  have lf: "length fps = length sfs" "length files = length sfiles"
    by (simp_all add: fps_def files_def)
  define H2 where "H2 = H1\<lparr>file_at :=
                (\<lambda>a. if next_file H1 \<le> a \<and> a < next_file H1 + length sfiles
                     then \<lparr>Path = sfile_Path (sfiles ! (a - next_file H1)),
                           File_Fingerprint =
                             Some (Fingerprints (v1\<lparr>Files := []\<rparr>)
                                     ! sfile_Fingerprint (sfiles ! (a - next_file H1))),
                           file_cache = \<lparr>cid = 0 + (a - next_file H1), hasID = True\<rparr>\<rparr>
                     else file_at H1 a),
              next_file := next_file H1 + length sfiles\<rparr>"
  define v2 where "v2 = v1\<lparr>Files := files\<rparr>"
  have nH1: "next_file H1 = next_file h" "next_archive H1 = next_archive h"
    "next_repo H1 = next_repo h"
    by (simp_all add: H1_def)
  from w(3) v1(1) lf have "list_all (\<lambda>sf. sfile_Fingerprint sf
      < length (Fingerprints (v1\<lparr>Files := []\<rparr>))) sfiles" by simp
  from load_files_form [OF w(2) this, of H1]
  have l2: "load_files H1 (v1\<lparr>Files := []\<rparr>) sfiles 0 = Inr (H2, v2)"
    unfolding H2_def v2_def files_def nH1 by simp
  define H3 where "H3 = H2\<lparr>archive_at :=
                (\<lambda>a. if next_archive H2 \<le> a \<and> a < next_archive H2 + length sas
                     then \<lparr>Archive_File = Some (Files (v2\<lparr>ArchiveFiles := []\<rparr>)
                                                 ! sa_File (sas ! (a - next_archive H2))),
                           Entries = map (\<lambda>k. Some (Files (v2\<lparr>ArchiveFiles := []\<rparr>) ! k))
                                       (sa_Entries (sas ! (a - next_archive H2))),
                           archive_cache = \<lparr>cid = 0 + (a - next_archive H2), hasID = True\<rparr>\<rparr>
                     else archive_at H2 a),
              next_archive := next_archive H2 + length sas\<rparr>"
  define archives where "archives = [next_archive h..<next_archive h + length sas]"
  define v3 where "v3 = v2\<lparr>ArchiveFiles := archives\<rparr>"
  have nH2: "next_archive H2 = next_archive h" "next_repo H2 = next_repo h"
    by (simp_all add: H2_def H1_def)
  from w(5) lf have "list_all (\<lambda>sa. sa_File sa < length (Files (v2\<lparr>ArchiveFiles := []\<rparr>))
                \<and> list_all (\<lambda>k. k < length (Files (v2\<lparr>ArchiveFiles := []\<rparr>))) (sa_Entries sa)) sas"
    by (simp add: v2_def)
  from load_archives_form [OF w(4) this, of H2]
  have l3: "load_archives H2 (v2\<lparr>ArchiveFiles := []\<rparr>) sas 0 = Inr (H3, v3)"
    unfolding H3_def v3_def archives_def nH2 by simp
  define H4 where "H4 = H3\<lparr>repo_at :=
                (\<lambda>a. if next_repo H3 \<le> a \<and> a < next_repo H3 + length srs
                     then \<lparr>Commit = sr_Commit (srs ! (a - next_repo H3)),
                           Tag = sr_Tag (srs ! (a - next_repo H3)),
                           Branch = sr_Branch (srs ! (a - next_repo H3)),
                           URL = sr_URL (srs ! (a - next_repo H3)),
                           Repo_Files = map (\<lambda>k. Some (Files (v3\<lparr>GitRepoSources := []\<rparr>) ! k))
                                          (sr_Files (srs ! (a - next_repo H3))),
                           repo_cache = \<lparr>cid = 0 + (a - next_repo H3), hasID = True\<rparr>\<rparr>
                     else repo_at H3 a),
              next_repo := next_repo H3 + length srs\<rparr>"
  define repos where "repos = [next_repo h..<next_repo h + length srs]"
  define v4 where "v4 = v3\<lparr>GitRepoSources := repos\<rparr>"
  have nH3: "next_repo H3 = next_repo h" by (simp add: H3_def H2_def H1_def)
  from w(6) lf have "list_all (\<lambda>r. list_all (\<lambda>k. k < length (Files (v3\<lparr>GitRepoSources := []\<rparr>)))
      (sr_Files r)) srs"
    by (simp add: v3_def v2_def list_all_iff)
  from load_repos_form [OF this, of H3 0]
  have l4: "load_repos H3 (v3\<lparr>GitRepoSources := []\<rparr>) srs 0 = Inr (H4, v4)"
    unfolding H4_def v4_def repos_def nH3 by simp
  define v5 where "v5 = v4\<lparr>statCache := map (\<lambda>kf. (fst kf, fps ! snd kf)) kfs\<rparr>"
  have s4: "Fingerprints v4 = fps" "statCache v4 = []" "Files v4 = files"
    "ArchiveFiles v4 = archives" "GitRepoSources v4 = repos"
    by (simp_all add: v4_def v3_def v2_def v1)
  from w(7) lf s4 have "list_all (\<lambda>kf. snd kf < length (Fingerprints v4)) kfs" by simp
  from load_stat_cache_form [OF this w(8)] s4
  have l5: "load_stat_cache v4 kfs = Inr v5" by (simp add: v5_def)
  have l: "loadSerializedCache (h, newInMemoryCache keys) d = Inr (H4, v5)"
    using l1 l2 l3 l4 l5
    by (simp add: loadSerializedCache_def sfs_def sfiles_def sas_def srs_def kfs_def)
  have s5: "Fingerprints v5 = fps" "Files v5 = files" "ArchiveFiles v5 = archives"
    "GitRepoSources v5 = repos" "statCache v5 = map (\<lambda>kf. (fst kf, fps ! snd kf)) kfs"
    by (simp_all add: v5_def s4)
  have a1: "fingerprint_at H4 (fps ! j)
      = (sf_Fingerprint (sfs ! j))\<lparr>fp_cache := \<lparr>cid = j, hasID = True\<rparr>\<rparr>"
    if "j < length sfs" for j
    using that by (simp add: H4_def H3_def H2_def H1_def fps_def)
  have a2: "file_at H4 (files ! j)
      = \<lparr>Path = sfile_Path (sfiles ! j),
         File_Fingerprint = Some (fps ! sfile_Fingerprint (sfiles ! j)),
         file_cache = \<lparr>cid = j, hasID = True\<rparr>\<rparr>"
    if "j < length sfiles" for j
    using that by (simp add: H4_def H3_def H2_def nH1 files_def v1)
  have a3: "archive_at H4 (archives ! j)
      = \<lparr>Archive_File = Some (files ! sa_File (sas ! j)),
         Entries = map (\<lambda>k. Some (files ! k)) (sa_Entries (sas ! j)),
         archive_cache = \<lparr>cid = j, hasID = True\<rparr>\<rparr>"
    if "j < length sas" for j
    using that by (simp add: H4_def H3_def nH2 archives_def v2_def)
  have a4: "repo_at H4 (repos ! j)
      = \<lparr>Commit = sr_Commit (srs ! j), Tag = sr_Tag (srs ! j), Branch = sr_Branch (srs ! j),
         URL = sr_URL (srs ! j),
         Repo_Files = map (\<lambda>k. Some (files ! k)) (sr_Files (srs ! j)),
         repo_cache = \<lparr>cid = j, hasID = True\<rparr>\<rparr>"
    if "j < length srs" for j
    using that by (simp add: H4_def nH3 repos_def v3_def v2_def)
  have la: "length archives = length sas" "length repos = length srs"
    by (simp_all add: archives_def repos_def)
  have c: "ids_consistent (H4, v5)"
    using a1 a2 a3 a4 lf la by (simp add: ids_consistent_def s5 CacheID_def)
  have f1: "list_all2 (\<lambda>a sf. (sf_Fingerprint sf)\<lparr>fp_cache := no_cache_id\<rparr>
                             = (fingerprint_at H4 a)\<lparr>fp_cache := no_cache_id\<rparr>) fps sfs"
    using a1 lf by (simp add: list_all2_conv_all_nth)
  have f2: "list_all2 (\<lambda>a sf. sfile_Path sf = Path (file_at H4 a)
                      \<and> sfile_Fingerprint sf < length fps
                      \<and> File_Fingerprint (file_at H4 a) = Some (fps ! sfile_Fingerprint sf))
          files sfiles"
    using a2 lf w(3) by (simp add: list_all2_conv_all_nth list_all_length)
  have f3: "list_all2 (\<lambda>a sa. sa_File sa < length files
                      \<and> Archive_File (archive_at H4 a) = Some (files ! sa_File sa)
                      \<and> list_all (\<lambda>k. k < length files) (sa_Entries sa)
                      \<and> Entries (archive_at H4 a) = map (\<lambda>k. Some (files ! k)) (sa_Entries sa))
          archives sas"
    using a3 lf la w(5) by (simp add: list_all2_conv_all_nth list_all_length)
  have f4: "list_all2 (\<lambda>a sr. sr_ID sr = 0
                      \<and> sr_Commit sr = Commit (repo_at H4 a)
                      \<and> sr_Tag sr = Tag (repo_at H4 a)
                      \<and> sr_Branch sr = Branch (repo_at H4 a)
                      \<and> sr_URL sr = URL (repo_at H4 a)
                      \<and> list_all (\<lambda>k. k < length files) (sr_Files sr)
                      \<and> Repo_Files (repo_at H4 a) = map (\<lambda>k. Some (files ! k)) (sr_Files sr))
          repos srs"
    using a4 lf la w(6) by (simp add: list_all2_conv_all_nth list_all_length)
  have f5: "list_all2 (\<lambda>kp ki. fst ki = fst kp \<and> snd ki < length fps \<and> snd kp = fps ! snd ki)
          (map (\<lambda>kf. (fst kf, fps ! snd kf)) kfs) kfs"
    using w(7) lf by (simp add: list_all2_conv_all_nth list_all_length)
  have "id_addressed_form (H4, v5) d"
    unfolding id_addressed_form_def
    using f1 f2 f3 f4 f5 w(1,2,4)
    by (simp add: s5 sfs_def sfiles_def sas_def srs_def kfs_def)
  with l c show ?thesis by blast
qed


lemma list_all2_right:
  "list_all2 Q xs ys \<Longrightarrow> (\<And>x y. Q x y \<Longrightarrow> R y) \<Longrightarrow> list_all R ys"
  by (auto simp: list_all2_conv_all_nth list_all_length)

lemma list_all2_join:
  "list_all2 Q xs ds \<Longrightarrow> list_all2 Q' ys ds \<Longrightarrow> (\<And>x y d. Q x d \<Longrightarrow> Q' y d \<Longrightarrow> R x y) \<Longrightarrow>
     list_all2 R xs ys"
  by (auto simp: list_all2_conv_all_nth)

lemma id_addressed_formD:
  assumes "id_addressed_form s d"
  shows "list_all2 (\<lambda>a sf. (sf_Fingerprint sf)\<lparr>fp_cache := no_cache_id\<rparr>
                             = (fingerprint_at (fst s) a)\<lparr>fp_cache := no_cache_id\<rparr>)
        (Fingerprints (snd s)) (S_Fingerprints d)"
    and "map sf_ID (S_Fingerprints d) = [0..<length (S_Fingerprints d)]"
    and "list_all2 (\<lambda>a sf. sfile_Path sf = Path (file_at (fst s) a)
                      \<and> sfile_Fingerprint sf < length (Fingerprints (snd s))
                      \<and> File_Fingerprint (file_at (fst s) a)
                          = Some (Fingerprints (snd s) ! sfile_Fingerprint sf))
          (Files (snd s)) (S_Files d)"
    and "map sfile_ID (S_Files d) = [0..<length (S_Files d)]"
    and "list_all2 (\<lambda>a sa. sa_File sa < length (Files (snd s))
                      \<and> Archive_File (archive_at (fst s) a) = Some (Files (snd s) ! sa_File sa)
                      \<and> list_all (\<lambda>k. k < length (Files (snd s))) (sa_Entries sa)
                      \<and> Entries (archive_at (fst s) a)
                          = map (\<lambda>k. Some (Files (snd s) ! k)) (sa_Entries sa))
          (ArchiveFiles (snd s)) (S_Archives d)"
    and "map sa_ID (S_Archives d) = [0..<length (S_Archives d)]"
    and "list_all2 (\<lambda>a sr. sr_ID sr = 0
                      \<and> sr_Commit sr = Commit (repo_at (fst s) a)
                      \<and> sr_Tag sr = Tag (repo_at (fst s) a)
                      \<and> sr_Branch sr = Branch (repo_at (fst s) a)
                      \<and> sr_URL sr = URL (repo_at (fst s) a)
                      \<and> list_all (\<lambda>k. k < length (Files (snd s))) (sr_Files sr)
                      \<and> Repo_Files (repo_at (fst s) a)
                          = map (\<lambda>k. Some (Files (snd s) ! k)) (sr_Files sr))
          (GitRepoSources (snd s)) (S_Repos d)"
    and "list_all2 (\<lambda>kp ki. fst ki = fst kp
                      \<and> snd ki < length (Fingerprints (snd s))
                      \<and> snd kp = Fingerprints (snd s) ! snd ki)
          (statCache (snd s)) (S_StatCache d)"
  using assms by (simp_all add: id_addressed_form_def)

lemma form_ids_in_range:
  assumes "id_addressed_form s d" "distinct (map fst (statCache (snd s)))"
  shows "ids_in_range d"
proof -
  note f = id_addressed_formD [OF assms(1)]
  from f(1) f(3) have l: "length (S_Fingerprints d) = length (Fingerprints (snd s))"
    "length (S_Files d) = length (Files (snd s))"
    by (simp_all add: list_all2_lengthD)
  have "list_all (\<lambda>sf. sfile_Fingerprint sf < length (S_Fingerprints d)) (S_Files d)"
    unfolding l by (rule list_all2_right [OF f(3)]) simp
  moreover have "list_all (\<lambda>sa. sa_File sa < length (S_Files d)
                    \<and> list_all (\<lambda>k. k < length (S_Files d)) (sa_Entries sa)) (S_Archives d)"
    unfolding l by (rule list_all2_right [OF f(5)]) simp
  moreover have "list_all (\<lambda>sr. sr_ID sr = 0
                    \<and> list_all (\<lambda>k. k < length (S_Files d)) (sr_Files sr)) (S_Repos d)"
    unfolding l by (rule list_all2_right [OF f(7)]) simp
  moreover have "list_all (\<lambda>ki. snd ki < length (S_Fingerprints d)) (S_StatCache d)"
    unfolding l by (rule list_all2_right [OF f(8)]) simp
  moreover from f(8) have "map fst (S_StatCache d) = map fst (statCache (snd s))"
    by (intro nth_equalityI) (simp_all add: list_all2_conv_all_nth)
  with assms(2) have "distinct (map fst (S_StatCache d))" by simp
  ultimately show ?thesis using f(2,4,6) by (simp add: ids_in_range_def)
qed

lemma same_form_isomorphic:
  assumes "id_addressed_form s d" "id_addressed_form s' d"
  shows "store_isomorphic s s'"
proof -
  note f = id_addressed_formD [OF assms(1)]
  note g = id_addressed_formD [OF assms(2)]
  have 1: "list_all2 (\<lambda>a a'. (fingerprint_at (fst s) a)\<lparr>fp_cache := no_cache_id\<rparr>
                          = (fingerprint_at (fst s') a')\<lparr>fp_cache := no_cache_id\<rparr>)
        (Fingerprints (snd s)) (Fingerprints (snd s'))"
    by (rule list_all2_join [OF f(1) g(1)]) simp
  have 2: "list_all2 (\<lambda>a a'. Path (file_at (fst s) a) = Path (file_at (fst s') a')
            \<and> (\<exists>k < length (Fingerprints (snd s)).
                  File_Fingerprint (file_at (fst s) a) = Some (Fingerprints (snd s) ! k)
                  \<and> File_Fingerprint (file_at (fst s') a') = Some (Fingerprints (snd s') ! k)))
          (Files (snd s)) (Files (snd s'))"
    by (rule list_all2_join [OF f(3) g(3)]) auto
  have 3: "list_all2 (\<lambda>a a'.
            (\<exists>k < length (Files (snd s)).
                Archive_File (archive_at (fst s) a) = Some (Files (snd s) ! k)
                \<and> Archive_File (archive_at (fst s') a') = Some (Files (snd s') ! k))
            \<and> (\<exists>ks. list_all (\<lambda>k. k < length (Files (snd s))) ks
                  \<and> Entries (archive_at (fst s) a) = map (\<lambda>k. Some (Files (snd s) ! k)) ks
                  \<and> Entries (archive_at (fst s') a') = map (\<lambda>k. Some (Files (snd s') ! k)) ks))
          (ArchiveFiles (snd s)) (ArchiveFiles (snd s'))"
    by (rule list_all2_join [OF f(5) g(5)]) auto
  have 4: "list_all2 (\<lambda>a a'. Commit (repo_at (fst s) a) = Commit (repo_at (fst s') a')
            \<and> Tag (repo_at (fst s) a) = Tag (repo_at (fst s') a')
            \<and> Branch (repo_at (fst s) a) = Branch (repo_at (fst s') a')
            \<and> URL (repo_at (fst s) a) = URL (repo_at (fst s') a')
            \<and> (\<exists>ks. list_all (\<lambda>k. k < length (Files (snd s))) ks
                  \<and> Repo_Files (repo_at (fst s) a) = map (\<lambda>k. Some (Files (snd s) ! k)) ks
                  \<and> Repo_Files (repo_at (fst s') a') = map (\<lambda>k. Some (Files (snd s') ! k)) ks))
          (GitRepoSources (snd s)) (GitRepoSources (snd s'))"
    by (rule list_all2_join [OF f(7) g(7)]) auto
  have 5: "list_all2 (\<lambda>kp kp'. fst kp = fst kp'
            \<and> (\<exists>k < length (Fingerprints (snd s)).
                  snd kp = Fingerprints (snd s) ! k \<and> snd kp' = Fingerprints (snd s') ! k))
          (statCache (snd s)) (statCache (snd s'))"
    by (rule list_all2_join [OF f(8) g(8)]) auto
  from 1 2 3 4 5 show ?thesis by (simp add: store_isomorphic_def)
qed


text \<open>
  C2, as the code has it. Take a store reached by put operations from a new store, in a
  heap whose objects carry no cache id before they are put (cache ids are given by the
  store), every \<^verbatim>\<open>PutStatFingerprint\<close> of the sequence being given a fingerprint that
  is stored at that moment. Then \<^verbatim>\<open>Verify\<close> succeeds on it, \<^verbatim>\<open>NewSerializedCache\<close>
  returns the id-addressed form of its pointer graph, \<^verbatim>\<open>PersistRememberedObjects\<close>
  writes that form to both files, and loading it back (by \<^verbatim>\<open>loadSerializedCache\<close> on a
  new store in any heap, or by \<^verbatim>\<open>RestoreRememberedObjects\<close> from either file) succeeds
  and gives a store that has the same id-addressed form: it is isomorphic to the original
  (fingerprints, files with their fingerprints, archives with their file and their
  entries in order, repos with their files, stat cache, every id resolved to the node at
  that index), and \<^verbatim>\<open>Verify\<close> succeeds on it. The gob, Snappy and YAML encodings are
  taken to return the serialized cache they were given.
\<close>

theorem serialization_round_trip:
  "fresh_heap h0 \<and> stat_puts_interned (h0, newInMemoryCache keys) ops
     \<and> run_puts (h0, newInMemoryCache keys) ops = Inr s \<longrightarrow>
   Verify s = None
   \<and> (\<exists>d. NewSerializedCache s = Inr d
        \<and> id_addressed_form s d
        \<and> PersistRememberedObjects s True True disk
            = Inr (disk\<lparr>fingerprint_gob := Some d, fingerprint_yaml := Some d\<rparr>)
        \<and> (\<forall>useGob keys1 h1. \<exists>s'.
             loadSerializedCache (h1, newInMemoryCache keys1) d = Inr s'
             \<and> RestoreRememberedObjects useGob keys1 h1
                  (disk\<lparr>fingerprint_gob := Some d, fingerprint_yaml := Some d\<rparr>) = Inr (Some s')
             \<and> id_addressed_form s' d
             \<and> store_isomorphic s s'
             \<and> Verify s' = None))"
proof
  assume a: "fresh_heap h0 \<and> stat_puts_interned (h0, newInMemoryCache keys) ops
     \<and> run_puts (h0, newInMemoryCache keys) ops = Inr s"
  then have r: "run_puts (h0, newInMemoryCache keys) ops = Inr s" by simp
  from run_puts_store_inv [OF new_store_inv r] have inv: "store_inv s" .
  from a new_store_refs [of h0 keys] have "interned_inv (h0, newInMemoryCache keys)"
    "refs_inv (h0, newInMemoryCache keys)" by simp_all
  from run_puts_refs [OF new_store_inv this _ r] a have refs: "refs_inv s" by simp
  from store_inv_ids_consistent [OF inv] have v: "Verify s = None" by (simp add: Verify_iff)
  from NewSerializedCache_form [OF inv refs] obtain d where
    d: "NewSerializedCache s = Inr d" and f: "id_addressed_form s d" by blast
  from refs have "distinct (map fst (statCache (snd s)))" by (simp add: refs_inv_def)
  from form_ids_in_range [OF f this] have w: "ids_in_range d" .
  have p: "PersistRememberedObjects s True True disk
            = Inr (disk\<lparr>fingerprint_gob := Some d, fingerprint_yaml := Some d\<rparr>)"
    using v d by (simp add: PersistRememberedObjects_def)
  have l: "\<exists>s'. loadSerializedCache (h1, newInMemoryCache keys1) d = Inr s'
             \<and> RestoreRememberedObjects useGob keys1 h1
                  (disk\<lparr>fingerprint_gob := Some d, fingerprint_yaml := Some d\<rparr>) = Inr (Some s')
             \<and> id_addressed_form s' d
             \<and> store_isomorphic s s'
             \<and> Verify s' = None" for useGob keys1 h1
  proof -
    from load_ids_in_range [OF w, of h1 keys1] obtain s' where
      s': "loadSerializedCache (h1, newInMemoryCache keys1) d = Inr s'"
      "id_addressed_form s' d" "ids_consistent s'" by blast
    from s'(3) have v': "Verify s' = None" by (simp add: Verify_iff)
    with s'(1) have "RestoreRememberedObjects useGob keys1 h1
        (disk\<lparr>fingerprint_gob := Some d, fingerprint_yaml := Some d\<rparr>) = Inr (Some s')"
      by (simp add: RestoreRememberedObjects_def)
    with s' v' same_form_isomorphic [OF f s'(2)] show ?thesis by blast
  qed
  from v d f p l show "Verify s = None
   \<and> (\<exists>d. NewSerializedCache s = Inr d
        \<and> id_addressed_form s d
        \<and> PersistRememberedObjects s True True disk
            = Inr (disk\<lparr>fingerprint_gob := Some d, fingerprint_yaml := Some d\<rparr>)
        \<and> (\<forall>useGob keys1 h1. \<exists>s'.
             loadSerializedCache (h1, newInMemoryCache keys1) d = Inr s'
             \<and> RestoreRememberedObjects useGob keys1 h1
                  (disk\<lparr>fingerprint_gob := Some d, fingerprint_yaml := Some d\<rparr>) = Inr (Some s')
             \<and> id_addressed_form s' d
             \<and> store_isomorphic s s'
             \<and> Verify s' = None))"
    by blast
qed

lemma example_fresh: "fresh_heap example_heap"
  by (simp add: fresh_heap_def example_heap_def blank_heap_def new_Fingerprint_def
      IsCached_def no_cache_id_def)

lemma example_stat_run:
  "\<exists>s. run_puts (example_heap, example_store)
          [PutArchiveFileOp (Some 0), PutStatFingerprintOp ''7,1,1'' 1] = Inr s
       \<and> stat_puts_interned (example_heap, example_store)
          [PutArchiveFileOp (Some 0), PutStatFingerprintOp ''7,1,1'' 1]
       \<and> Fingerprints (snd s) = [1, 0] \<and> Files (snd s) = [1, 0] \<and> ArchiveFiles (snd s) = [0]
       \<and> statCache (snd s) = [(''7,1,1'', 1)]"
  by (simp add: eval_defs PutStatFingerprint_def)

theorem serialization_round_trip_witness:
  "\<exists>s d s'. run_puts (example_heap, example_store)
          [PutArchiveFileOp (Some 0), PutStatFingerprintOp ''7,1,1'' 1] = Inr s
       \<and> Fingerprints (snd s) = [1, 0] \<and> Files (snd s) = [1, 0] \<and> ArchiveFiles (snd s) = [0]
       \<and> statCache (snd s) = [(''7,1,1'', 1)]
       \<and> Verify s = None
       \<and> NewSerializedCache s = Inr d
       \<and> PersistRememberedObjects s True True \<lparr>fingerprint_gob = None, fingerprint_yaml = None\<rparr>
           = Inr \<lparr>fingerprint_gob = Some d, fingerprint_yaml = Some d\<rparr>
       \<and> RestoreRememberedObjects False length_key blank_heap
           \<lparr>fingerprint_gob = Some d, fingerprint_yaml = Some d\<rparr> = Inr (Some s')
       \<and> RestoreRememberedObjects True length_key blank_heap
           \<lparr>fingerprint_gob = Some d, fingerprint_yaml = Some d\<rparr> = Inr (Some s')
       \<and> store_isomorphic s s'
       \<and> Verify s' = None"
proof -
  let ?ops = "[PutArchiveFileOp (Some 0), PutStatFingerprintOp ''7,1,1'' 1]"
  let ?disk = "\<lparr>fingerprint_gob = None, fingerprint_yaml = None\<rparr>"
  from example_stat_run obtain s where
    r: "run_puts (example_heap, example_store) ?ops = Inr s"
    and i: "stat_puts_interned (example_heap, example_store) ?ops"
    and e: "Fingerprints (snd s) = [1, 0]" "Files (snd s) = [1, 0]" "ArchiveFiles (snd s) = [0]"
      "statCache (snd s) = [(''7,1,1'', 1)]"
    by blast
  from example_fresh i r have "fresh_heap example_heap
     \<and> stat_puts_interned (example_heap, newInMemoryCache length_key) ?ops
     \<and> run_puts (example_heap, newInMemoryCache length_key) ?ops = Inr s"
    by (simp add: example_store_def)
  from serialization_round_trip [of example_heap length_key ?ops s ?disk, THEN mp, OF this]
  obtain d where v: "Verify s = None" and d: "NewSerializedCache s = Inr d"
    and p: "PersistRememberedObjects s True True ?disk
            = Inr (?disk\<lparr>fingerprint_gob := Some d, fingerprint_yaml := Some d\<rparr>)"
    and l: "\<And>useGob keys1 h1. \<exists>s'.
             loadSerializedCache (h1, newInMemoryCache keys1) d = Inr s'
             \<and> RestoreRememberedObjects useGob keys1 h1
                  (?disk\<lparr>fingerprint_gob := Some d, fingerprint_yaml := Some d\<rparr>) = Inr (Some s')
             \<and> id_addressed_form s' d
             \<and> store_isomorphic s s'
             \<and> Verify s' = None"
    by blast
  from l [of blank_heap length_key False] obtain s' where
    s': "loadSerializedCache (blank_heap, newInMemoryCache length_key) d = Inr s'"
    "RestoreRememberedObjects False length_key blank_heap
       (?disk\<lparr>fingerprint_gob := Some d, fingerprint_yaml := Some d\<rparr>) = Inr (Some s')"
    "store_isomorphic s s'" "Verify s' = None"
    by blast
  from l [of blank_heap length_key True] s'(1)
  have "RestoreRememberedObjects True length_key blank_heap
       (?disk\<lparr>fingerprint_gob := Some d, fingerprint_yaml := Some d\<rparr>) = Inr (Some s')"
    by auto
  with r e v d p s' show ?thesis by (intro exI [of _ s] exI [of _ d] exI [of _ s']) simp
qed


text \<open>
  The claim as stated fails on a store reached by a \<^verbatim>\<open>PutStatFingerprint\<close> of a
  fingerprint that was never interned: the fingerprint carries no cache id, so
  \<^verbatim>\<open>NewSerializedCache\<close> writes the id 0 for it, and the load of a store that has no
  fingerprint at the index 0 panics.
\<close>

theorem unstored_stat_fingerprint_counterexample:
  "run_puts (example_heap, example_store) [PutStatFingerprintOp ''7,1,1'' 1]
     = Inr (example_heap, example_store\<lparr>statCache := [(''7,1,1'', 1)]\<rparr>)
   \<and> Fingerprints (example_store\<lparr>statCache := [(''7,1,1'', 1)]\<rparr>) = []
   \<and> Verify (example_heap, example_store\<lparr>statCache := [(''7,1,1'', 1)]\<rparr>) = None
   \<and> NewSerializedCache (example_heap, example_store\<lparr>statCache := [(''7,1,1'', 1)]\<rparr>)
       = Inr \<lparr>S_Fingerprints = [], S_Files = [], S_Archives = [], S_Repos = [],
              S_StatCache = [(''7,1,1'', 0)]\<rparr>
   \<and> loadSerializedCache (blank_heap, example_store)
         \<lparr>S_Fingerprints = [], S_Files = [], S_Archives = [], S_Repos = [],
          S_StatCache = [(''7,1,1'', 0)]\<rparr>
       = Inl (Panic ''index out of range'')
   \<and> RestoreRememberedObjects False length_key blank_heap
         \<lparr>fingerprint_gob = None,
          fingerprint_yaml = Some \<lparr>S_Fingerprints = [], S_Files = [], S_Archives = [],
                                   S_Repos = [], S_StatCache = [(''7,1,1'', 0)]\<rparr>\<rparr>
       = Inl (Panic ''index out of range'')"
  by (simp add: eval_defs PutStatFingerprint_def Verify_iff ids_consistent_def
      NewSerializedCache_def loadSerializedCache_def RestoreRememberedObjects_def)

end
